theory Spec2Isabelle
  imports Complex_Main "HOL-Library.Signed_Division"
begin

section \<open>Conventions of the embedding\<close>

text \<open>
  The development embeds the frame pipeline of \<^verbatim>\<open>YoloObjectDetector.cpp\<close>.
  Members of the class keep their names without the trailing underscore
  (\<^verbatim>\<open>buffIndex_\<close> is \<open>buffIndex\<close>).  C++ \<^verbatim>\<open>float\<close> arithmetic is idealised as
  arithmetic on \<^typ>\<open>real\<close> (no rounding); where the source asks whether a float
  is a number at all (\<^verbatim>\<open>std::isnormal\<close>, \<^verbatim>\<open>NAN\<close>) the value is a \<open>cfloat\<close>,
  which keeps the special values apart.  C++ \<^verbatim>\<open>int\<close> is \<^typ>\<open>int\<close>, and
  \<^verbatim>\<open>%\<close> is the truncating remainder \<open>smod\<close>.  A read or write outside an
  array, which the source does not check, is the result \<open>None\<close>.
\<close>

section \<open>The ring index\<close>

text \<open>
  \<^verbatim>\<open>buffIndex_ = (buffIndex_ + 1) % 3;\<close> at the top of each iteration of the loop of
  \<^verbatim>\<open>yolo()\<close>.
\<close>

definition advance_buffIndex :: "int \<Rightarrow> int" where
  "advance_buffIndex i = (i + 1) smod 3"

text \<open>
  The slot each stage uses in an iteration whose index (after the advance) is \<open>i\<close>:
  \<^verbatim>\<open>buff_[buffIndex_]\<close> in \<^verbatim>\<open>fetchInThread\<close>,
  \<^verbatim>\<open>buffLetter_[(buffIndex_ + 2) % 3]\<close> in \<^verbatim>\<open>detectInThread\<close>,
  \<^verbatim>\<open>buff_[(buffIndex_ + 1)%3]\<close> in \<^verbatim>\<open>displayInThread\<close>.
\<close>

definition fetch_slot :: "int \<Rightarrow> int" where
  "fetch_slot i = i"

definition detect_slot :: "int \<Rightarrow> int" where
  "detect_slot i = (i + 2) smod 3"

definition display_slot :: "int \<Rightarrow> int" where
  "display_slot i = (i + 1) smod 3"

section \<open>Data model\<close>

subsection \<open>Floats that may fail to be numbers\<close>

text \<open>
  A \<^verbatim>\<open>float\<close> read from the depth map or returned by \<^verbatim>\<open>getObjDepth\<close>: a finite
  value, an infinity or \<^verbatim>\<open>NAN\<close>.  \<^verbatim>\<open>std::isnormal\<close> holds of the finite values that
  are neither zero nor subnormal, that is of magnitude at least \<^verbatim>\<open>FLT_MIN\<close>.
\<close>

datatype cfloat = Finite real | PlusInf | MinusInf | NaN

definition FLT_MIN :: real where
  "FLT_MIN = 1 / 2 ^ 126"

fun isnormal :: "cfloat \<Rightarrow> bool" where
  "isnormal (Finite r) = (FLT_MIN \<le> \<bar>r\<bar>)"
| "isnormal PlusInf = False"
| "isnormal MinusInf = False"
| "isnormal NaN = False"

text \<open>The cast \<^verbatim>\<open>(int)\<close> of a float: truncation towards zero.\<close>

definition int_cast :: "real \<Rightarrow> int" where
  "int_cast r = (if 0 \<le> r then \<lfloor>r\<rfloor> else \<lceil>r\<rceil>)"

text \<open>
  \<^verbatim>\<open>std_msgs::Int8\<close> holds eight bits: the conversion of an \<^verbatim>\<open>int\<close> wraps around.
\<close>

definition int8_cast :: "int \<Rightarrow> int" where
  "int8_cast k = (k + 128) mod 256 - 128"

subsection \<open>Messages and images\<close>

record Header =
  seq :: nat
  stamp :: nat
  frame_id :: string

text \<open>
  \<^verbatim>\<open>cv::Mat\<close>: its size and its pixels.  \<^verbatim>\<open>Mat::at\<close> does not check its indices;
  a read outside the matrix is \<open>None\<close>.
\<close>

record 'p Mat =
  rows :: int
  cols :: int
  pixel :: "int \<Rightarrow> int \<Rightarrow> 'p"

type_synonym bgr8 = "nat \<times> nat \<times> nat"

definition Mat_at :: "'p Mat \<Rightarrow> int \<Rightarrow> int \<Rightarrow> 'p option" where
  "Mat_at m r c =
     (if 0 \<le> r \<and> r < rows m \<and> 0 \<le> c \<and> c < cols m then Some (pixel m r c) else None)"

record Image_msg =
  msg_header :: Header
  msg_height :: nat
  msg_width :: nat
  msg_encoding :: string
  msg_data :: "nat list"

text \<open>
  \<^verbatim>\<open>cv_bridge::toCvCopy\<close> is a library function; the callbacks take it as a
  parameter, once for each target encoding they ask for.  \<open>Inl e\<close> is a thrown
  \<^verbatim>\<open>cv_bridge::Exception\<close> with message \<open>e\<close>, \<open>Inr None\<close> a null pointer,
  \<open>Inr (Some m)\<close> the decoded image.
\<close>

record cv_bridge =
  toCvCopy_BGR8 :: "Image_msg \<Rightarrow> string + bgr8 Mat option"
  toCvCopy_32FC1 :: "Image_msg \<Rightarrow> string + cfloat Mat option"

text \<open>The goal of the action \<^verbatim>\<open>CheckForObjects\<close>: an image and the caller's id.\<close>

record CheckForObjectsGoal =
  goal_id :: int
  goal_image :: Image_msg

text \<open>
  What the node uses of \<^verbatim>\<open>actionlib::SimpleActionServer\<close>, a library class: whether
  a goal is active, and whether its preemption was requested.
\<close>

record SimpleActionServer =
  active :: bool
  preempt_request :: bool

definition acceptNewGoal :: "SimpleActionServer \<Rightarrow> SimpleActionServer" where
  "acceptNewGoal s = s\<lparr>active := True, preempt_request := False\<rparr>"

definition setSucceeded :: "SimpleActionServer \<Rightarrow> SimpleActionServer" where
  "setSucceeded s = s\<lparr>active := False\<rparr>"

definition setPreempted :: "SimpleActionServer \<Rightarrow> SimpleActionServer" where
  "setPreempted s = s\<lparr>active := False\<rparr>"

subsection \<open>Darknet's data\<close>

text \<open>Darknet's \<^verbatim>\<open>image\<close>, \<^verbatim>\<open>layer\<close>, \<^verbatim>\<open>box\<close> and \<^verbatim>\<open>detection\<close>, as far as the node reads them.\<close>

record image =
  img_w :: int
  img_h :: int
  img_c :: int
  img_data :: "real list"

datatype LAYER_TYPE =
  CONVOLUTIONAL | MAXPOOL | ROUTE | SHORTCUT | UPSAMPLE | YOLO | REGION | DETECTION

record layer =
  ltype :: LAYER_TYPE
  outputs :: nat
  l_output :: "real list"
  classes :: nat
  l_w :: nat
  l_h :: nat
  l_n :: nat

record network =
  layers :: "layer list"
  net_w :: int
  net_h :: int

record box =
  box_x :: real
  box_y :: real
  box_w :: real
  box_h :: real

record detection =
  bbox :: box
  prob :: "nat \<Rightarrow> real"

text \<open>\<^verbatim>\<open>RosBox_\<close>, the entry of \<^verbatim>\<open>roiBoxes_\<close>.\<close>

record RosBox =
  rb_x :: real
  rb_y :: real
  rb_w :: real
  rb_h :: real
  rb_z :: cfloat
  rb_num :: int
  rb_Class :: int
  rb_prob :: real

text \<open>The messages of the publish stage.\<close>

record BoundingBox =
  bb_Class :: string
  bb_probability :: real
  bb_xmin :: int
  bb_ymin :: int
  bb_xmax :: int
  bb_ymax :: int
  bb_z :: cfloat

record BoundingBoxes =
  bbs_header :: Header
  bbs_image_header :: Header
  bounding_boxes :: "BoundingBox list"

record CheckForObjectsResult =
  result_id :: int
  result_bounding_boxes :: BoundingBoxes

text \<open>
  The functions of darknet that the node calls on a frame and on the network; they are
  parameters of the stages.  \<^verbatim>\<open>fill_cpu\<close> and \<^verbatim>\<open>axpy_cpu\<close> are written out below.
\<close>

record darknet =
  network_predict :: "network \<Rightarrow> real list \<Rightarrow> network"
  get_network_boxes :: "network \<Rightarrow> int \<Rightarrow> int \<Rightarrow> real \<Rightarrow> real \<Rightarrow> detection list"
  do_nms_obj :: "detection list \<Rightarrow> nat \<Rightarrow> real \<Rightarrow> detection list"
  draw_detections :: "image \<Rightarrow> detection list \<Rightarrow> real \<Rightarrow> nat \<Rightarrow> image"
  ipl_to_image :: "bgr8 Mat \<Rightarrow> image"
  ipl_into_image :: "bgr8 Mat \<Rightarrow> image \<Rightarrow> image"
  letterbox_image :: "image \<Rightarrow> int \<Rightarrow> int \<Rightarrow> image"
  rgbgr_image :: "image \<Rightarrow> image"
  letterbox_image_into :: "image \<Rightarrow> int \<Rightarrow> int \<Rightarrow> image \<Rightarrow> image"

subsection \<open>The node\<close>

text \<open>
  The members of \<^verbatim>\<open>YoloObjectDetector\<close> that the pipeline reads and writes, with the
  global semaphore \<^verbatim>\<open>sem_new_image_\<close>.  \<open>rosout\<close> collects the \<^verbatim>\<open>ROS_ERROR\<close>
  diagnostics; \<open>objectPublished\<close>, \<open>boundingBoxesPublished\<close> and \<open>actionResults\<close>
  collect what the node hands to its two publishers and to the action server, the
  newest last.  \<open>fetch_thread_joinable\<close> and \<open>detect_thread_joinable\<close> say whether
  the two \<^verbatim>\<open>std::thread\<close> objects of \<^verbatim>\<open>yolo()\<close> hold a thread that was started and
  not yet joined.  The arrays \<^verbatim>\<open>buff_\<close>, \<^verbatim>\<open>buffLetter_\<close>, \<^verbatim>\<open>headerBuff_\<close> and
  \<^verbatim>\<open>buffId_\<close> have three entries.
\<close>

record YoloObjectDetector =
  imageHeader :: Header
  camImageCopy :: "bgr8 Mat"
  camDmapCopy :: "cfloat Mat"
  actionId :: int
  imageStatus :: bool
  frameWidth :: int
  frameHeight :: int
  sem_new_image :: nat
  checkForObjectsActionServer :: SimpleActionServer
  ros_ok :: bool
  rosout :: "string list"
  isNodeRunning :: bool
  demoDone :: bool
  buffIndex :: int
  buff :: "image list"
  buffLetter :: "image list"
  headerBuff :: "Header list"
  buffId :: "int list"
  net :: network
  predictions :: "real list list"
  avg :: "real list"
  demoIndex :: nat
  demoFrame :: nat
  demoTotal :: nat
  demoClasses :: nat
  demoThresh :: real
  demoHier :: real
  roiBoxes :: "RosBox list"
  numClasses :: nat
  classLabels :: "string list"
  rosBoxes :: "RosBox list list"
  rosBoxCounter :: "nat list"
  boundingBoxesResults :: BoundingBoxes
  objectPublished :: "int list"
  boundingBoxesPublished :: "BoundingBoxes list"
  actionResults :: "CheckForObjectsResult list"
  fetch_thread_joinable :: bool
  detect_thread_joinable :: bool

section \<open>Frame ingestion\<close>

text \<open>
  \<^verbatim>\<open>zedCameraCallback\<close>.  Both conversions are in one \<^verbatim>\<open>try\<close> block, the colour
  image first; the \<^verbatim>\<open>catch\<close> clause logs and returns.
\<close>

definition ros_error :: "string \<Rightarrow> YoloObjectDetector \<Rightarrow> YoloObjectDetector" where
  "ros_error e st = st\<lparr>rosout := rosout st @ [''cv_bridge exception: '' @ e]\<rparr>"

definition zedCameraCallback ::
  "cv_bridge \<Rightarrow> Image_msg \<Rightarrow> Image_msg \<Rightarrow> YoloObjectDetector \<Rightarrow> YoloObjectDetector" where
  "zedCameraCallback cvb img_msg dmap_msg st =
     (case toCvCopy_BGR8 cvb img_msg of
        Inl e \<Rightarrow> ros_error e st
      | Inr cam_image \<Rightarrow>
          (case toCvCopy_32FC1 cvb dmap_msg of
             Inl e \<Rightarrow> ros_error e st
           | Inr cam_dmap \<Rightarrow>
               (case (cam_image, cam_dmap) of
                  (Some im, Some dm) \<Rightarrow>
                    st\<lparr>imageHeader := msg_header img_msg,
                       camImageCopy := im,
                       camDmapCopy := dm,
                       imageStatus := True,
                       frameWidth := cols im,
                       frameHeight := rows im,
                       sem_new_image := Suc (sem_new_image st)\<rparr>
                | _ \<Rightarrow> st)))"

text \<open>
  \<^verbatim>\<open>checkForObjectsActionGoalCB\<close>.  The goal is accepted before its image is
  converted; the argument is the goal that \<^verbatim>\<open>acceptNewGoal()\<close> returns.
\<close>

definition checkForObjectsActionGoalCB ::
  "cv_bridge \<Rightarrow> CheckForObjectsGoal \<Rightarrow> YoloObjectDetector \<Rightarrow> YoloObjectDetector" where
  "checkForObjectsActionGoalCB cvb imageAction st =
     (let st1 = st\<lparr>checkForObjectsActionServer :=
                      acceptNewGoal (checkForObjectsActionServer st)\<rparr>
      in case toCvCopy_BGR8 cvb (goal_image imageAction) of
           Inl e \<Rightarrow> ros_error e st1
         | Inr None \<Rightarrow> st1
         | Inr (Some im) \<Rightarrow>
             st1\<lparr>camImageCopy := im,
                 actionId := goal_id imageAction,
                 imageStatus := True,
                 frameWidth := cols im,
                 frameHeight := rows im\<rparr>)"

definition checkForObjectsActionPreemptCB :: "YoloObjectDetector \<Rightarrow> YoloObjectDetector" where
  "checkForObjectsActionPreemptCB st =
     st\<lparr>checkForObjectsActionServer := setPreempted (checkForObjectsActionServer st)\<rparr>"

definition isCheckingForObjects :: "YoloObjectDetector \<Rightarrow> bool" where
  "isCheckingForObjects st =
     (ros_ok st \<and> active (checkForObjectsActionServer st)
      \<and> \<not> preempt_request (checkForObjectsActionServer st))"

definition getIplImageWithHeader :: "YoloObjectDetector \<Rightarrow> bgr8 Mat \<times> Header" where
  "getIplImageWithHeader st = (camImageCopy st, imageHeader st)"

definition getImageStatus :: "YoloObjectDetector \<Rightarrow> bool" where
  "getImageStatus st = imageStatus st"

section \<open>Temporal averaging\<close>

definition is_detection_layer :: "layer \<Rightarrow> bool" where
  "is_detection_layer l = (ltype l = YOLO \<or> ltype l = REGION \<or> ltype l = DETECTION)"

text \<open>\<^verbatim>\<open>sizeNetwork\<close>: the loop over the layers, with its counter.\<close>

fun sizeNetwork_loop :: "layer list \<Rightarrow> nat \<Rightarrow> nat" where
  "sizeNetwork_loop [] count = count"
| "sizeNetwork_loop (l # ls) count =
     (if is_detection_layer l then sizeNetwork_loop ls (count + outputs l)
      else sizeNetwork_loop ls count)"

definition sizeNetwork :: "network \<Rightarrow> nat" where
  "sizeNetwork nw = sizeNetwork_loop (layers nw) 0"

text \<open>
  \<^verbatim>\<open>memcpy(dst + off, src, n * sizeof(float))\<close> on arrays of floats: \<open>n\<close> entries of
  \<open>src\<close> replace the entries of \<open>dst\<close> from \<open>off\<close> on.
\<close>

definition memcpy :: "real list \<Rightarrow> nat \<Rightarrow> real list \<Rightarrow> nat \<Rightarrow> real list option" where
  "memcpy dst off src n =
     (if off + n \<le> length dst \<and> n \<le> length src
      then Some (take off dst @ take n src @ drop (off + n) dst) else None)"

text \<open>
  \<^verbatim>\<open>rememberNetwork\<close>: the outputs of the detection layers, one after the other, go
  into the row \<^verbatim>\<open>predictions_[demoIndex_]\<close>.
\<close>

fun rememberNetwork_loop :: "layer list \<Rightarrow> nat \<Rightarrow> real list \<Rightarrow> real list option" where
  "rememberNetwork_loop [] count row = Some row"
| "rememberNetwork_loop (l # ls) count row =
     (if is_detection_layer l then
        (case memcpy row count (l_output l) (outputs l) of
           None \<Rightarrow> None
         | Some row' \<Rightarrow> rememberNetwork_loop ls (count + outputs l) row')
      else rememberNetwork_loop ls count row)"

definition rememberNetwork :: "network \<Rightarrow> YoloObjectDetector \<Rightarrow> YoloObjectDetector option" where
  "rememberNetwork nw st =
     (if demoIndex st < length (predictions st) then
        (case rememberNetwork_loop (layers nw) 0 (predictions st ! demoIndex st) of
           None \<Rightarrow> None
         | Some row \<Rightarrow> Some (st\<lparr>predictions := (predictions st)[demoIndex st := row]\<rparr>))
      else None)"

text \<open>
  Darknet's \<^verbatim>\<open>fill_cpu(N, ALPHA, X, 1)\<close> sets \<^verbatim>\<open>X[i] = ALPHA\<close> and
  \<^verbatim>\<open>axpy_cpu(N, ALPHA, X, 1, Y, 1)\<close> adds \<^verbatim>\<open>ALPHA * X[i]\<close> to \<^verbatim>\<open>Y[i]\<close>, for
  \<^verbatim>\<open>i < N\<close>.
\<close>

definition fill_cpu :: "nat \<Rightarrow> real \<Rightarrow> real list \<Rightarrow> real list option" where
  "fill_cpu N ALPHA X =
     (if N \<le> length X then Some (replicate N ALPHA @ drop N X) else None)"

definition axpy_cpu :: "nat \<Rightarrow> real \<Rightarrow> real list \<Rightarrow> real list \<Rightarrow> real list option" where
  "axpy_cpu N ALPHA X Y =
     (if N \<le> length X \<and> N \<le> length Y
      then Some (map2 (\<lambda>xv yv. yv + ALPHA * xv) (take N X) (take N Y) @ drop N Y)
      else None)"

text \<open>The first loop of \<^verbatim>\<open>avgPredictions\<close>, over the rows \<open>js\<close> of the history.\<close>

fun avg_loop :: "nat \<Rightarrow> real \<Rightarrow> real list list \<Rightarrow> nat list \<Rightarrow> real list \<Rightarrow> real list option" where
  "avg_loop N ALPHA preds [] av = Some av"
| "avg_loop N ALPHA preds (j # js) av =
     (if j < length preds then
        (case axpy_cpu N ALPHA (preds ! j) av of
           None \<Rightarrow> None
         | Some av' \<Rightarrow> avg_loop N ALPHA preds js av')
      else None)"

text \<open>
  The second loop of \<^verbatim>\<open>avgPredictions\<close>: the mean goes back into the outputs of the
  detection layers, from which \<^verbatim>\<open>get_network_boxes\<close> decodes the boxes.
\<close>

fun writeback_loop :: "layer list \<Rightarrow> nat \<Rightarrow> real list \<Rightarrow> layer list option" where
  "writeback_loop [] count av = Some []"
| "writeback_loop (l # ls) count av =
     (if is_detection_layer l then
        (case memcpy (l_output l) 0 (drop count av) (outputs l) of
           None \<Rightarrow> None
         | Some out \<Rightarrow>
             (case writeback_loop ls (count + outputs l) av of
                None \<Rightarrow> None
              | Some ls' \<Rightarrow> Some (l\<lparr>l_output := out\<rparr> # ls')))
      else
        (case writeback_loop ls count av of
           None \<Rightarrow> None
         | Some ls' \<Rightarrow> Some (l # ls')))"

definition avgPredictions ::
  "darknet \<Rightarrow> network \<Rightarrow> YoloObjectDetector
   \<Rightarrow> (YoloObjectDetector \<times> network \<times> detection list) option" where
  "avgPredictions dk nw st =
     (case fill_cpu (demoTotal st) 0 (avg st) of
        None \<Rightarrow> None
      | Some av0 \<Rightarrow>
          (case avg_loop (demoTotal st) (1 / real (demoFrame st)) (predictions st)
                  [0..<demoFrame st] av0 of
             None \<Rightarrow> None
           | Some av \<Rightarrow>
               (case writeback_loop (layers nw) 0 av of
                  None \<Rightarrow> None
                | Some ls' \<Rightarrow>
                    (case buff st of
                       [] \<Rightarrow> None
                     | b0 # _ \<Rightarrow>
                         (let nw' = nw\<lparr>layers := ls'\<rparr>
                          in Some (st\<lparr>avg := av\<rparr>, nw',
                                   get_network_boxes dk nw' (img_w b0) (img_h b0)
                                     (demoThresh st) (demoHier st)))))))"

section \<open>Depth of a box\<close>

text \<open>
  \<^verbatim>\<open>getObjDepth\<close>.  The two nested loops run \<open>i\<close> (rows) and \<open>j\<close> (columns) from 1 to
  \<open>refs\<close>; \<open>grid\<close> lists the pairs in the order of the loops.
\<close>

definition refs :: nat where
  "refs = 3"

definition grid :: "(nat \<times> nat) list" where
  "grid = concat (map (\<lambda>i. map (\<lambda>j. (i, j)) [1..<refs + 1]) [1..<refs + 1])"

definition sample_x :: "real \<Rightarrow> real \<Rightarrow> nat \<Rightarrow> real" where
  "sample_x xmin xmax j = xmin + real j * (xmax - xmin) / real (refs + 1)"

definition sample_y :: "real \<Rightarrow> real \<Rightarrow> nat \<Rightarrow> real" where
  "sample_y ymin ymax i = ymin + real i * (ymax - ymin) / real (refs + 1)"

definition read_depth :: "YoloObjectDetector \<Rightarrow> real \<Rightarrow> real \<Rightarrow> cfloat option" where
  "read_depth st xv yv =
     Mat_at (camDmapCopy st) (int_cast (yv * real_of_int (frameHeight st)))
       (int_cast (xv * real_of_int (frameWidth st)))"

text \<open>\<^verbatim>\<open>if (std::isnormal(d)) depths.push_back(d);\<close>\<close>

fun push_if_normal :: "cfloat \<Rightarrow> real list \<Rightarrow> real list" where
  "push_if_normal (Finite r) depths = (if isnormal (Finite r) then depths @ [r] else depths)"
| "push_if_normal d depths = depths"

fun depth_loop ::
  "YoloObjectDetector \<Rightarrow> real \<Rightarrow> real \<Rightarrow> real \<Rightarrow> real \<Rightarrow> (nat \<times> nat) list \<Rightarrow> real list
   \<Rightarrow> real list option" where
  "depth_loop st xmin xmax ymin ymax [] depths = Some depths"
| "depth_loop st xmin xmax ymin ymax ((i, j) # ps) depths =
     (case read_depth st (sample_x xmin xmax j) (sample_y ymin ymax i) of
        None \<Rightarrow> None
      | Some d \<Rightarrow> depth_loop st xmin xmax ymin ymax ps (push_if_normal d depths))"

text \<open>The end of \<^verbatim>\<open>getObjDepth\<close>, after \<^verbatim>\<open>std::sort\<close>.\<close>

definition pick_depth :: "real list \<Rightarrow> cfloat" where
  "pick_depth depths =
     (let sorted_depths = sort depths
      in if length sorted_depths > 1 then Finite (sorted_depths ! 1)
         else if length sorted_depths = 1 then Finite (sorted_depths ! 0)
         else NaN)"

definition getObjDepth ::
  "YoloObjectDetector \<Rightarrow> real \<Rightarrow> real \<Rightarrow> real \<Rightarrow> real \<Rightarrow> cfloat option" where
  "getObjDepth st xmin xmax ymin ymax =
     (case depth_loop st xmin xmax ymin ymax grid [] of
        None \<Rightarrow> None
      | Some depths \<Rightarrow> Some (pick_depth depths))"

section \<open>The detect stage\<close>

text \<open>The four edges of a box, and their clipping in \<^verbatim>\<open>detectInThread\<close>.\<close>

record edges =
  e_xmin :: real
  e_xmax :: real
  e_ymin :: real
  e_ymax :: real

definition box_edges :: "box \<Rightarrow> edges" where
  "box_edges b =
     \<lparr>e_xmin = box_x b - box_w b / 2, e_xmax = box_x b + box_w b / 2,
      e_ymin = box_y b - box_h b / 2, e_ymax = box_y b + box_h b / 2\<rparr>"

definition clip_edges :: "edges \<Rightarrow> edges" where
  "clip_edges e =
     \<lparr>e_xmin = (if e_xmin e < 0 then 0 else e_xmin e),
      e_xmax = (if e_xmax e > 1 then 1 else e_xmax e),
      e_ymin = (if e_ymin e < 0 then 0 else e_ymin e),
      e_ymax = (if e_ymax e > 1 then 1 else e_ymax e)\<rparr>"

definition BBox_width :: "edges \<Rightarrow> real" where
  "BBox_width e = e_xmax e - e_xmin e"

definition BBox_height :: "edges \<Rightarrow> real" where
  "BBox_height e = e_ymax e - e_ymin e"

text \<open>
  The body of the loop over the classes: the entry \<^verbatim>\<open>roiBoxes_[count]\<close> is written
  and \<^verbatim>\<open>count\<close> goes up when the score of class \<open>j\<close> is not zero and the clipped
  box is more than a hundredth of the frame wide and high.  \<^verbatim>\<open>roiBoxes_\<close> has a fixed
  number of entries, the length of the list.
\<close>

definition write_roiBox :: "RosBox \<Rightarrow> edges \<Rightarrow> cfloat \<Rightarrow> nat \<Rightarrow> real \<Rightarrow> RosBox" where
  "write_roiBox rb e zv j p =
     rb\<lparr>rb_x := (e_xmin e + e_xmax e) / 2,
        rb_y := (e_ymin e + e_ymax e) / 2,
        rb_w := BBox_width e,
        rb_h := BBox_height e,
        rb_z := zv,
        rb_Class := int j,
        rb_prob := p\<rparr>"

definition class_step ::
  "YoloObjectDetector \<Rightarrow> detection \<Rightarrow> edges \<Rightarrow> nat \<Rightarrow> RosBox list \<times> nat
   \<Rightarrow> (RosBox list \<times> nat) option" where
  "class_step st d e j rc =
     (case rc of (roi, count) \<Rightarrow>
        if prob d j \<noteq> 0 then
          if BBox_width e > 0.01 \<and> BBox_height e > 0.01 then
            if count < length roi then
              (case getObjDepth st (e_xmin e) (e_xmax e) (e_ymin e) (e_ymax e) of
                 None \<Rightarrow> None
               | Some zv \<Rightarrow>
                   Some (roi[count := write_roiBox (roi ! count) e zv j (prob d j)], Suc count))
            else None
          else Some (roi, count)
        else Some (roi, count))"

fun class_loop ::
  "YoloObjectDetector \<Rightarrow> detection \<Rightarrow> edges \<Rightarrow> nat list \<Rightarrow> RosBox list \<times> nat
   \<Rightarrow> (RosBox list \<times> nat) option" where
  "class_loop st d e [] rc = Some rc"
| "class_loop st d e (j # js) rc =
     (case class_step st d e j rc of
        None \<Rightarrow> None
      | Some rc' \<Rightarrow> class_loop st d e js rc')"

text \<open>The loop over the boxes.\<close>

fun box_loop ::
  "YoloObjectDetector \<Rightarrow> detection list \<Rightarrow> RosBox list \<times> nat \<Rightarrow> (RosBox list \<times> nat) option" where
  "box_loop st [] rc = Some rc"
| "box_loop st (d # ds) rc =
     (case class_loop st d (clip_edges (box_edges (bbox d))) [0..<demoClasses st] rc of
        None \<Rightarrow> None
      | Some rc' \<Rightarrow> box_loop st ds rc')"

text \<open>
  After the loops: \<^verbatim>\<open>roiBoxes_[0].num\<close> takes the count (both branches of the
  \<^verbatim>\<open>if\<close> store it).
\<close>

definition set_num :: "RosBox list \<Rightarrow> nat \<Rightarrow> RosBox list option" where
  "set_num roi count =
     (case roi of
        [] \<Rightarrow> None
      | rb # rest \<Rightarrow>
          Some ((if count = 0 then rb\<lparr>rb_num := 0\<rparr> else rb\<lparr>rb_num := int count\<rparr>) # rest))"

definition extract_boxes :: "YoloObjectDetector \<Rightarrow> detection list \<Rightarrow> (RosBox list \<times> nat) option" where
  "extract_boxes st dets =
     (case box_loop st dets (roiBoxes st, 0) of
        None \<Rightarrow> None
      | Some (roi, count) \<Rightarrow>
          (case set_num roi count of
             None \<Rightarrow> None
           | Some roi' \<Rightarrow> Some (roi', count)))"

text \<open>
  \<^verbatim>\<open>detectInThread\<close>.  Its first part, \<open>detect_boxes\<close>: inference on the slot two
  behind, the history and its mean, suppression and drawing.  Its second part: the
  extraction of the boxes and the advance of \<^verbatim>\<open>demoIndex_\<close>, which divides by
  \<^verbatim>\<open>demoFrame_\<close>.
\<close>

definition nms :: real where
  "nms = 0.4"

definition detect_boxes ::
  "darknet \<Rightarrow> YoloObjectDetector \<Rightarrow> (YoloObjectDetector \<times> detection list) option" where
  "detect_boxes dk st =
     (let slot = detect_slot (buffIndex st) in
      if layers (net st) = [] \<or> slot < 0 \<or> 3 \<le> slot
         \<or> length (buffLetter st) \<noteq> 3 \<or> length (buff st) \<noteq> 3
      then None
      else
        (let l = last (layers (net st));
             X = img_data (buffLetter st ! nat slot);
             nw1 = network_predict dk (net st) X
         in case rememberNetwork nw1 st of
              None \<Rightarrow> None
            | Some st1 \<Rightarrow>
                (case avgPredictions dk nw1 st1 of
                   None \<Rightarrow> None
                 | Some (st2, nw2, dets0) \<Rightarrow>
                     (let dets = (if nms > 0 then do_nms_obj dk dets0 (classes l) nms else dets0);
                          display = draw_detections dk (buff st2 ! nat slot) dets
                                      (demoThresh st2) (demoClasses st2)
                      in Some (st2\<lparr>net := nw2, buff := (buff st2)[nat slot := display]\<rparr>,
                               dets)))))"

definition detectInThread :: "darknet \<Rightarrow> YoloObjectDetector \<Rightarrow> YoloObjectDetector option" where
  "detectInThread dk st =
     (case detect_boxes dk st of
        None \<Rightarrow> None
      | Some (st3, dets) \<Rightarrow>
          (case extract_boxes st3 dets of
             None \<Rightarrow> None
           | Some (roi, count) \<Rightarrow>
               if demoFrame st3 = 0 then None
               else Some (st3\<lparr>roiBoxes := roi,
                              demoIndex := (demoIndex st3 + 1) mod demoFrame st3\<rparr>)))"

section \<open>The fetch and display stages\<close>

definition fetchInThread :: "darknet \<Rightarrow> YoloObjectDetector \<Rightarrow> YoloObjectDetector option" where
  "fetchInThread dk st =
     (let slot = fetch_slot (buffIndex st) in
      if slot < 0 \<or> 3 \<le> slot \<or> length (buff st) \<noteq> 3 \<or> length (buffLetter st) \<noteq> 3
         \<or> length (headerBuff st) \<noteq> 3 \<or> length (buffId st) \<noteq> 3
      then None
      else
        (case getIplImageWithHeader st of
           (ROS_img, hdr) \<Rightarrow>
             (let k = nat slot;
                  b = rgbgr_image dk (ipl_into_image dk ROS_img (buff st ! k))
              in Some (st\<lparr>buff := (buff st)[k := b],
                         headerBuff := (headerBuff st)[k := hdr],
                         buffId := (buffId st)[k := actionId st],
                         buffLetter := (buffLetter st)
                           [k := letterbox_image_into dk b (net_w (net st)) (net_h (net st))
                                   (buffLetter st ! k)]\<rparr>))))"

text \<open>
  \<^verbatim>\<open>displayInThread\<close>, as far as it changes the node: the colour channels of the slot
  one behind are swapped in place, and the key \<open>c\<close> that \<^verbatim>\<open>cvWaitKey\<close> returns ends
  the loop or moves a threshold.  The copy of the pixels into the window is left out.
\<close>

definition displayInThread :: "darknet \<Rightarrow> int \<Rightarrow> YoloObjectDetector \<Rightarrow> YoloObjectDetector option" where
  "displayInThread dk key st =
     (let slot = display_slot (buffIndex st) in
      if slot < 0 \<or> 3 \<le> slot \<or> length (buff st) \<noteq> 3 then None
      else
        (let p = buff st ! nat slot;
             st1 = (if img_c p = 3 then st\<lparr>buff := (buff st)[nat slot := rgbgr_image dk p]\<rparr>
                    else st);
             c = (if key \<noteq> - 1 then key smod 256 else key)
         in Some
              (if c = 27 then st1\<lparr>demoDone := True\<rparr>
               else if c = 82 then st1\<lparr>demoThresh := demoThresh st1 + 0.02\<rparr>
               else if c = 84 then
                 st1\<lparr>demoThresh := (if demoThresh st1 - 0.02 \<le> 0.02 then 0.02
                                      else demoThresh st1 - 0.02)\<rparr>
               else if c = 83 then st1\<lparr>demoHier := demoHier st1 + 0.02\<rparr>
               else if c = 81 then
                 st1\<lparr>demoHier := (if demoHier st1 - 0.02 \<le> 0 then 0
                                    else demoHier st1 - 0.02)\<rparr>
               else st1)))"

section \<open>The publish stage\<close>

text \<open>
  The first loops of \<^verbatim>\<open>publishInThread\<close> sort the entries of \<^verbatim>\<open>roiBoxes_\<close> into
  \<^verbatim>\<open>rosBoxes_\<close> by class and count them in \<^verbatim>\<open>rosBoxCounter_\<close>.
\<close>

fun group_classes ::
  "RosBox \<Rightarrow> nat list \<Rightarrow> RosBox list list \<times> nat list \<Rightarrow> RosBox list list \<times> nat list" where
  "group_classes rb [] g = g"
| "group_classes rb (j # js) (rbs, ctr) =
     group_classes rb js
       (if rb_Class rb = int j then (rbs[j := rbs ! j @ [rb]], ctr[j := Suc (ctr ! j)])
        else (rbs, ctr))"

fun group_boxes ::
  "RosBox list \<Rightarrow> nat list \<Rightarrow> RosBox list list \<times> nat list \<Rightarrow> RosBox list list \<times> nat list" where
  "group_boxes [] js g = g"
| "group_boxes (rb # rest) js g = group_boxes rest js (group_classes rb js g)"

definition make_BoundingBox :: "YoloObjectDetector \<Rightarrow> nat \<Rightarrow> RosBox \<Rightarrow> BoundingBox" where
  "make_BoundingBox st i rb =
     \<lparr>bb_Class = classLabels st ! i,
      bb_probability = rb_prob rb,
      bb_xmin = int_cast ((rb_x rb - rb_w rb / 2) * real_of_int (frameWidth st)),
      bb_ymin = int_cast ((rb_y rb - rb_h rb / 2) * real_of_int (frameHeight st)),
      bb_xmax = int_cast ((rb_x rb + rb_w rb / 2) * real_of_int (frameWidth st)),
      bb_ymax = int_cast ((rb_y rb + rb_h rb / 2) * real_of_int (frameHeight st)),
      bb_z = rb_z rb\<rparr>"

definition class_BoundingBoxes ::
  "YoloObjectDetector \<Rightarrow> RosBox list list \<Rightarrow> nat list \<Rightarrow> nat \<Rightarrow> BoundingBox list" where
  "class_BoundingBoxes st rbs ctr i =
     (if ctr ! i > 0 then map (make_BoundingBox st i) (take (ctr ! i) (rbs ! i)) else [])"

text \<open>
  The branch \<^verbatim>\<open>num > 0 && num <= 100\<close>: the count and the boxes are published.  The
  boxes take the header of the slot one behind.
\<close>

definition publish_detections :: "int \<Rightarrow> YoloObjectDetector \<Rightarrow> YoloObjectDetector option" where
  "publish_detections num st =
     (if nat num \<le> length (roiBoxes st) then
        (case group_boxes (take (nat num) (roiBoxes st)) [0..<numClasses st]
                (rosBoxes st, rosBoxCounter st) of
           (rbs, ctr) \<Rightarrow>
             (let image_header = headerBuff st ! nat (display_slot (buffIndex st));
                  res = \<lparr>bbs_header = \<lparr>seq = seq (bbs_header (boundingBoxesResults st)),
                                         stamp = stamp image_header,
                                         frame_id = ''detection''\<rparr>,
                         bbs_image_header = image_header,
                         bounding_boxes = bounding_boxes (boundingBoxesResults st)
                           @ concat (map (class_BoundingBoxes st rbs ctr) [0..<numClasses st])\<rparr>
              in Some (st\<lparr>rosBoxes := rbs,
                         rosBoxCounter := ctr,
                         objectPublished := objectPublished st @ [int8_cast num],
                         boundingBoxesResults := res,
                         boundingBoxesPublished := boundingBoxesPublished st @ [res]\<rparr>)))
      else None)"

text \<open>
  The completion of the pending request, \<^verbatim>\<open>if (isCheckingForObjects()) { ... }\<close>: the
  result carries \<^verbatim>\<open>buffId_[0]\<close>.
\<close>

definition complete_request :: "YoloObjectDetector \<Rightarrow> YoloObjectDetector" where
  "complete_request st =
     (if isCheckingForObjects st then
        st\<lparr>actionResults := actionResults st
              @ [\<lparr>result_id = buffId st ! 0,
                   result_bounding_boxes = boundingBoxesResults st\<rparr>],
           checkForObjectsActionServer := setSucceeded (checkForObjectsActionServer st)\<rparr>
      else st)"

definition clear_results :: "YoloObjectDetector \<Rightarrow> YoloObjectDetector" where
  "clear_results st =
     st\<lparr>boundingBoxesResults := (boundingBoxesResults st)\<lparr>bounding_boxes := []\<rparr>,
        rosBoxes := replicate (numClasses st) [],
        rosBoxCounter := replicate (numClasses st) 0\<rparr>"

text \<open>
  \<^verbatim>\<open>publishInThread\<close>.  The vectors \<^verbatim>\<open>rosBoxes_\<close>, \<^verbatim>\<open>rosBoxCounter_\<close> and
  \<^verbatim>\<open>classLabels_\<close> have \<^verbatim>\<open>numClasses_\<close> entries; the publication of the annotated
  frame, which changes nothing in the node, is left out.
\<close>

definition publishInThread :: "YoloObjectDetector \<Rightarrow> YoloObjectDetector option" where
  "publishInThread st =
     (let slot = display_slot (buffIndex st) in
      if roiBoxes st = [] \<or> slot < 0 \<or> 3 \<le> slot
         \<or> length (headerBuff st) \<noteq> 3 \<or> length (buffId st) \<noteq> 3
         \<or> length (rosBoxes st) \<noteq> numClasses st
         \<or> length (rosBoxCounter st) \<noteq> numClasses st
         \<or> length (classLabels st) \<noteq> numClasses st
         \<or> \<not> list_all2 (\<lambda>c bs. c = length bs) (rosBoxCounter st) (rosBoxes st)
      then None
      else
        (let num = rb_num (roiBoxes st ! 0) in
         case (if num > 0 \<and> num \<le> 100 then publish_detections num st
               else Some (st\<lparr>objectPublished := objectPublished st @ [int8_cast 0]\<rparr>)) of
           None \<Rightarrow> None
         | Some st1 \<Rightarrow> Some (clear_results (complete_request st1))))"

section \<open>The scheduler\<close>

text \<open>
  The set-up of \<^verbatim>\<open>yolo()\<close> between the wait for the first image and the loop:
  \<^verbatim>\<open>calloc\<close> gives zeroed rows of the history, a zeroed mean and zeroed entries of
  \<^verbatim>\<open>roiBoxes_\<close>, and the three slots are filled from the staged frame.
\<close>

definition zero_RosBox :: RosBox where
  "zero_RosBox =
     \<lparr>rb_x = 0, rb_y = 0, rb_w = 0, rb_h = 0, rb_z = Finite 0, rb_num = 0, rb_Class = 0,
      rb_prob = 0\<rparr>"

definition yolo_init :: "darknet \<Rightarrow> YoloObjectDetector \<Rightarrow> YoloObjectDetector option" where
  "yolo_init dk st =
     (if layers (net st) = [] then None
      else
        (let total = sizeNetwork (net st);
             l = last (layers (net st))
         in case getIplImageWithHeader st of
              (ROS_img, hdr) \<Rightarrow>
                (let b0 = ipl_to_image dk ROS_img;
                     lb = letterbox_image dk b0 (net_w (net st)) (net_h (net st))
                 in Some (st\<lparr>demoTotal := total,
                            predictions := replicate (demoFrame st) (replicate total 0),
                            avg := replicate total 0,
                            roiBoxes := replicate (l_w l * l_h l * l_n l) zero_RosBox,
                            buff := [b0, b0, b0],
                            headerBuff := [hdr, hdr, hdr],
                            buffLetter := [lb, lb, lb]\<rparr>))))"

text \<open>
  One pass through the body of the loop, after \<^verbatim>\<open>sem_wait\<close> has returned.  The
  constructor calls \<^verbatim>\<open>setupNetwork\<close> with a null \<^verbatim>\<open>prefix\<close>, so that
  \<^verbatim>\<open>demoPrefix_\<close> is null and the branch that displays and publishes is taken.  The
  source starts \<^verbatim>\<open>fetchInThread\<close> and \<^verbatim>\<open>detectInThread\<close> as two threads, runs
  \<^verbatim>\<open>displayInThread\<close> and then \<^verbatim>\<open>publishInThread\<close> on the thread of the loop
  while the two are running, and joins them afterwards.  The four stages therefore
  run in an order that the source does not fix, except that display comes before
  publish: the order is a parameter, the schedule of the pass.  A stage is taken as
  one step; a schedule that cuts a stage in two is not modelled.  For what the publish
  stage reads of the two threads this loses nothing as far as the count and the id of
  a result go: it reads \<^verbatim>\<open>roiBoxes_[0].num\<close> once and \<^verbatim>\<open>buffId_[0]\<close> once, the
  detect stage writes the one once, at its end, and the fetch stage writes a slot of
  the other once, so that each read sees the value of before or of after the stage.
  The entries of \<^verbatim>\<open>roiBoxes_\<close> that the publish stage copies while the detect stage
  rewrites them can be a mixture that no schedule of whole stages gives; none of the
  theorems is about the boxes that the publish stage copies.
\<close>

datatype stage = Fetch | Detect | Display | Publish

definition run_stage ::
  "darknet \<Rightarrow> int \<Rightarrow> stage \<Rightarrow> YoloObjectDetector \<Rightarrow> YoloObjectDetector option" where
  "run_stage dk key s st =
     (case s of
        Fetch \<Rightarrow> fetchInThread dk st
      | Detect \<Rightarrow> detectInThread dk st
      | Display \<Rightarrow> displayInThread dk key st
      | Publish \<Rightarrow> publishInThread st)"

fun run_stages ::
  "darknet \<Rightarrow> int \<Rightarrow> stage list \<Rightarrow> YoloObjectDetector \<Rightarrow> YoloObjectDetector option" where
  "run_stages dk key [] st = Some st"
| "run_stages dk key (s # ss) st =
     (case run_stage dk key s st of
        None \<Rightarrow> None
      | Some st' \<Rightarrow> run_stages dk key ss st')"

text \<open>
  The schedules that the source allows: each stage once, and publish not before
  display.
\<close>

definition interleaving :: "stage list \<Rightarrow> bool" where
  "interleaving sched =
     (distinct sched \<and> set sched = {Fetch, Detect, Display, Publish}
      \<and> Publish \<notin> set (takeWhile (\<lambda>s. s \<noteq> Display) sched))"

text \<open>
  The pass: the ring index advances and the two threads are started, the stages run
  as scheduled, the threads are joined, and the running flag is read.  \<open>key\<close> is the
  key that \<^verbatim>\<open>cvWaitKey\<close> returns in this pass, \<open>- 1\<close> for none.
\<close>

definition yolo_iteration ::
  "darknet \<Rightarrow> int \<Rightarrow> stage list \<Rightarrow> YoloObjectDetector \<Rightarrow> YoloObjectDetector option" where
  "yolo_iteration dk key sched st =
     (let st0 = st\<lparr>buffIndex := advance_buffIndex (buffIndex st),
                   fetch_thread_joinable := True,
                   detect_thread_joinable := True\<rparr>
      in case run_stages dk key sched st0 of
           None \<Rightarrow> None
         | Some st4 \<Rightarrow>
             (let st5 = st4\<lparr>fetch_thread_joinable := False,
                            detect_thread_joinable := False\<rparr>
              in Some (if \<not> isNodeRunning st5 then st5\<lparr>demoDone := True\<rparr> else st5)))"

text \<open>
  What becomes of the thread of the loop when no other thread posts the semaphore: it
  returns, it stays in \<^verbatim>\<open>sem_wait\<close> on a semaphore that is zero (or in the poll for
  the first image), or the passes given to the model, each with its key and its
  schedule, are used up before either happens.  \<open>Undefined\<close> is an access outside an
  array.
\<close>

datatype outcome =
  Exited YoloObjectDetector
| Blocked YoloObjectDetector
| Undefined
| Running YoloObjectDetector

fun yolo_loop :: "darknet \<Rightarrow> (int \<times> stage list) list \<Rightarrow> YoloObjectDetector \<Rightarrow> outcome" where
  "yolo_loop dk [] st =
     (if demoDone st then Exited st
      else if sem_new_image st = 0 then Blocked st
      else Running st)"
| "yolo_loop dk ((key, sched) # passes) st =
     (if demoDone st then Exited st
      else if sem_new_image st = 0 then Blocked st
      else
        (case yolo_iteration dk key sched (st\<lparr>sem_new_image := sem_new_image st - 1\<rparr>) of
           None \<Rightarrow> Undefined
         | Some st' \<Rightarrow> yolo_loop dk passes st'))"

definition yolo :: "darknet \<Rightarrow> (int \<times> stage list) list \<Rightarrow> YoloObjectDetector \<Rightarrow> outcome" where
  "yolo dk passes st =
     (if \<not> getImageStatus st then
        (if \<not> isNodeRunning st then Exited st else Blocked st)
      else
        (case yolo_init dk st of
           None \<Rightarrow> Undefined
         | Some st' \<Rightarrow> yolo_loop dk passes st'))"

text \<open>
  \<^verbatim>\<open>~YoloObjectDetector\<close> clears the running flag and joins the thread of the loop:
  the join returns when the loop, from the head of which it is taken up here, exits.
\<close>

definition destructor_join ::
  "darknet \<Rightarrow> (int \<times> stage list) list \<Rightarrow> YoloObjectDetector \<Rightarrow> outcome" where
  "destructor_join dk passes st = yolo_loop dk passes (st\<lparr>isNodeRunning := False\<rparr>)"

section \<open>Example inputs\<close>

text \<open>
  A small node on which the theorems below are instantiated: a network of one
  convolutional and one detection layer with four outputs, two classes, a history of
  two rows, frames of 4 by 4 pixels and a depth map whose pixel in row \<open>r\<close> and
  column \<open>c\<close> is \<open>r + c\<close> metres, except that the pixel at the origin is not a number.
\<close>

definition ex_header :: Header where
  "ex_header = \<lparr>seq = 1, stamp = 100, frame_id = ''camera''\<rparr>"

definition ex_colour :: "bgr8 Mat" where
  "ex_colour = \<lparr>rows = 4, cols = 4, pixel = (\<lambda>r c. (0, 0, 0))\<rparr>"

definition ex_dmap :: "cfloat Mat" where
  "ex_dmap =
     \<lparr>rows = 4, cols = 4,
      pixel = (\<lambda>r c. if r = 0 \<and> c = 0 then NaN else Finite (real_of_int (r + c)))\<rparr>"

definition ex_image :: image where
  "ex_image = \<lparr>img_w = 4, img_h = 4, img_c = 3, img_data = []\<rparr>"

definition ex_net :: network where
  "ex_net =
     \<lparr>layers =
        [\<lparr>ltype = CONVOLUTIONAL, outputs = 8, l_output = [], classes = 0,
          l_w = 2, l_h = 2, l_n = 2\<rparr>,
         \<lparr>ltype = YOLO, outputs = 4, l_output = [1, 2, 3, 4], classes = 2,
          l_w = 2, l_h = 2, l_n = 1\<rparr>],
      net_w = 4, net_h = 4\<rparr>"

definition ex_node :: YoloObjectDetector where
  "ex_node =
     \<lparr>imageHeader = ex_header,
      camImageCopy = ex_colour,
      camDmapCopy = ex_dmap,
      actionId = 0,
      imageStatus = True,
      frameWidth = 4,
      frameHeight = 4,
      sem_new_image = 0,
      checkForObjectsActionServer = \<lparr>active = False, preempt_request = False\<rparr>,
      ros_ok = True,
      rosout = [],
      isNodeRunning = True,
      demoDone = False,
      buffIndex = 0,
      buff = [ex_image, ex_image, ex_image],
      buffLetter = [ex_image, ex_image, ex_image],
      headerBuff = [ex_header, ex_header, ex_header],
      buffId = [0, 0, 0],
      net = ex_net,
      predictions = [[0, 0, 0, 0], [0, 0, 0, 0]],
      avg = [0, 0, 0, 0],
      demoIndex = 0,
      demoFrame = 2,
      demoTotal = 4,
      demoClasses = 2,
      demoThresh = 0.3,
      demoHier = 0.5,
      roiBoxes = [zero_RosBox, zero_RosBox, zero_RosBox, zero_RosBox],
      numClasses = 2,
      classLabels = [''person'', ''car''],
      rosBoxes = [[], []],
      rosBoxCounter = [0, 0],
      boundingBoxesResults =
        \<lparr>bbs_header = \<lparr>seq = 0, stamp = 0, frame_id = []\<rparr>,
         bbs_image_header = \<lparr>seq = 0, stamp = 0, frame_id = []\<rparr>,
         bounding_boxes = []\<rparr>,
      objectPublished = [],
      boundingBoxesPublished = [],
      actionResults = [],
      fetch_thread_joinable = False,
      detect_thread_joinable = False\<rparr>"

definition ex_msg :: Image_msg where
  "ex_msg =
     \<lparr>msg_header = \<lparr>seq = 2, stamp = 200, frame_id = ''camera''\<rparr>,
      msg_height = 4, msg_width = 4, msg_encoding = ''mono16'', msg_data = []\<rparr>"

text \<open>A conversion that rejects every message, and one that accepts every message.\<close>

definition cvb_throws :: cv_bridge where
  "cvb_throws =
     \<lparr>toCvCopy_BGR8 = (\<lambda>m. Inl ''unsupported conversion''),
      toCvCopy_32FC1 = (\<lambda>m. Inl ''unsupported conversion'')\<rparr>"

definition cvb_accepts :: cv_bridge where
  "cvb_accepts =
     \<lparr>toCvCopy_BGR8 = (\<lambda>m. Inr (Some \<lparr>rows = 2, cols = 3, pixel = (\<lambda>r c. (1, 1, 1))\<rparr>)),
      toCvCopy_32FC1 = (\<lambda>m. Inr (Some ex_dmap))\<rparr>"

section \<open>Notions of the specification\<close>

text \<open>
  The staged state that a failed ingestion is to leave alone: the staged frame, the
  depth map, the header, the correlation id, the image-available flag, the frame
  dimensions and the new-frame signal.
\<close>

definition staged_unchanged :: "YoloObjectDetector \<Rightarrow> YoloObjectDetector \<Rightarrow> bool" where
  "staged_unchanged st st' =
     (camImageCopy st' = camImageCopy st \<and> camDmapCopy st' = camDmapCopy st
      \<and> imageHeader st' = imageHeader st \<and> actionId st' = actionId st
      \<and> imageStatus st' = imageStatus st \<and> frameWidth st' = frameWidth st
      \<and> frameHeight st' = frameHeight st \<and> sem_new_image st' = sem_new_image st)"

text \<open>
  The depth estimate in the words of the specification.  The nine sample points of a
  box and the readings of the depth map at them; the valid readings, those that are
  finite and normal; and the estimate: the second-smallest valid reading if there
  are at least two, the only one if there is one, no value if there is none.  A value
  is the second-smallest of a list when it occurs in the list, at most one entry is
  below it and at least two entries are not above it.
\<close>

definition sample_points :: "real \<Rightarrow> real \<Rightarrow> real \<Rightarrow> real \<Rightarrow> (real \<times> real) list" where
  "sample_points xmin xmax ymin ymax =
     map (\<lambda>(i, j). (sample_x xmin xmax j, sample_y ymin ymax i)) grid"

definition sample_readings ::
  "YoloObjectDetector \<Rightarrow> real \<Rightarrow> real \<Rightarrow> real \<Rightarrow> real \<Rightarrow> cfloat list option" where
  "sample_readings st xmin xmax ymin ymax =
     those (map (\<lambda>(xv, yv). read_depth st xv yv) (sample_points xmin xmax ymin ymax))"

fun is_finite :: "cfloat \<Rightarrow> bool" where
  "is_finite (Finite r) = True"
| "is_finite d = False"

fun valid_values :: "cfloat list \<Rightarrow> real list" where
  "valid_values [] = []"
| "valid_values (Finite r # rs) =
     (if is_finite (Finite r) \<and> isnormal (Finite r) then r # valid_values rs
      else valid_values rs)"
| "valid_values (d # rs) = valid_values rs"

definition is_second_smallest :: "real \<Rightarrow> real list \<Rightarrow> bool" where
  "is_second_smallest r vs =
     (r \<in> set vs \<and> length (filter (\<lambda>v. v < r) vs) \<le> 1 \<and> 2 \<le> length (filter (\<lambda>v. v \<le> r) vs))"

definition is_depth_estimate :: "real list \<Rightarrow> cfloat \<Rightarrow> bool" where
  "is_depth_estimate vs zv =
     (if 2 \<le> length vs then (case zv of Finite r \<Rightarrow> is_second_smallest r vs | _ \<Rightarrow> False)
      else if length vs = 1 then zv = Finite (hd vs)
      else zv = NaN)"

text \<open>
  The detections that survive the filter of the detect stage: the pairs of a decoded
  box and a class whose score is not zero, where the clipped box is more than a
  hundredth of the frame wide and high; and what it means that an entry of
  \<^verbatim>\<open>roiBoxes_\<close> holds the record of such a pair.
\<close>

definition survives :: "detection \<Rightarrow> nat \<Rightarrow> bool" where
  "survives d j =
     (prob d j \<noteq> 0
      \<and> BBox_width (clip_edges (box_edges (bbox d))) > 0.01
      \<and> BBox_height (clip_edges (box_edges (bbox d))) > 0.01)"

definition survivors :: "nat \<Rightarrow> detection list \<Rightarrow> (detection \<times> nat) list" where
  "survivors ncls dets =
     concat (map (\<lambda>d. map (\<lambda>j. (d, j)) (filter (survives d) [0..<ncls])) dets)"

definition is_record_of :: "YoloObjectDetector \<Rightarrow> detection \<Rightarrow> nat \<Rightarrow> RosBox \<Rightarrow> bool" where
  "is_record_of st d j rb =
     (let e = clip_edges (box_edges (bbox d))
      in rb_x rb = (e_xmin e + e_xmax e) / 2 \<and> rb_y rb = (e_ymin e + e_ymax e) / 2
         \<and> rb_w rb = BBox_width e \<and> rb_h rb = BBox_height e
         \<and> getObjDepth st (e_xmin e) (e_xmax e) (e_ymin e) (e_ymax e) = Some (rb_z rb)
         \<and> rb_Class rb = int j \<and> rb_prob rb = prob d j)"

text \<open>
  The frame dimensions fit the depth map, so that every point of the unit frame has a
  pixel in it.
\<close>

definition depth_readable :: "YoloObjectDetector \<Rightarrow> bool" where
  "depth_readable st =
     (0 < frameWidth st \<and> frameWidth st \<le> cols (camDmapCopy st)
      \<and> 0 < frameHeight st \<and> frameHeight st \<le> rows (camDmapCopy st))"

text \<open>
  The boxes that the detect stage decodes in the pass that starts in \<open>st\<close>: the
  stages scheduled before it have run.  Whether the detect stage comes before the
  publish stage in a schedule.  The count that the publish stage makes of the number
  it reads in \<^verbatim>\<open>roiBoxes_[0].num\<close>.  And the extraction of given boxes followed by
  the publish stage, with the count of the extraction and the count messages
  published.
\<close>

definition iteration_detections ::
  "darknet \<Rightarrow> int \<Rightarrow> stage list \<Rightarrow> YoloObjectDetector \<Rightarrow> detection list option" where
  "iteration_detections dk key sched st =
     (case run_stages dk key (takeWhile (\<lambda>s. s \<noteq> Detect) sched)
             (st\<lparr>buffIndex := advance_buffIndex (buffIndex st),
                 fetch_thread_joinable := True,
                 detect_thread_joinable := True\<rparr>) of
        None \<Rightarrow> None
      | Some st1 \<Rightarrow> map_option snd (detect_boxes dk st1))"

definition detect_before_publish :: "stage list \<Rightarrow> bool" where
  "detect_before_publish sched = (Detect \<in> set (takeWhile (\<lambda>s. s \<noteq> Publish) sched))"

definition published_count :: "int \<Rightarrow> int" where
  "published_count num = (if 0 < num \<and> num \<le> 100 then num else 0)"

definition extract_then_publish ::
  "YoloObjectDetector \<Rightarrow> detection list \<Rightarrow> (nat \<times> int list) option" where
  "extract_then_publish st dets =
     (case extract_boxes st dets of
        None \<Rightarrow> None
      | Some (roi, count) \<Rightarrow>
          (case publishInThread (st\<lparr>roiBoxes := roi\<rparr>) of
             None \<Rightarrow> None
           | Some st' \<Rightarrow> Some (count, objectPublished st')))"

text \<open>The four edges of a box lie in the unit frame, the lower before the upper.\<close>

definition in_unit_frame :: "edges \<Rightarrow> bool" where
  "in_unit_frame e =
     (0 \<le> e_xmin e \<and> e_xmin e \<le> 1 \<and> 0 \<le> e_xmax e \<and> e_xmax e \<le> 1
      \<and> 0 \<le> e_ymin e \<and> e_ymin e \<le> 1 \<and> 0 \<le> e_ymax e \<and> e_ymax e \<le> 1
      \<and> e_xmin e \<le> e_xmax e \<and> e_ymin e \<le> e_ymax e)"

text \<open>
  A depth map with two valid readings on the grid of the whole frame, 5 metres at
  row 1, column 1 and 3 metres at row 3, column 3; the other pixels are zero,
  infinite or not a number.  And depth maps with one and with no valid reading.
\<close>

definition ex_dmap_two :: "cfloat Mat" where
  "ex_dmap_two =
     \<lparr>rows = 4, cols = 4,
      pixel = (\<lambda>r c. if r = 1 \<and> c = 1 then Finite 5
                      else if r = 3 \<and> c = 3 then Finite 3
                      else if r = 1 then Finite 0
                      else if r = 2 then PlusInf
                      else NaN)\<rparr>"

definition ex_dmap_one :: "cfloat Mat" where
  "ex_dmap_one =
     \<lparr>rows = 4, cols = 4,
      pixel = (\<lambda>r c. if r = 2 \<and> c = 2 then Finite 7 else MinusInf)\<rparr>"

definition ex_dmap_none :: "cfloat Mat" where
  "ex_dmap_none = \<lparr>rows = 4, cols = 4, pixel = (\<lambda>r c. NaN)\<rparr>"

text \<open>
  Three decoded boxes with a score for the first class only: one that reaches over
  the right edge of the frame, one that is half a hundredth of the frame wide, and
  one that lies beyond the right edge altogether.
\<close>

definition ex_prob :: "nat \<Rightarrow> real" where
  "ex_prob j = (if j = 0 then 0.9 else 0)"

definition ex_det_over :: detection where
  "ex_det_over =
     \<lparr>bbox = \<lparr>box_x = 0.9, box_y = 0.5, box_w = 0.4, box_h = 0.5\<rparr>, prob = ex_prob\<rparr>"

definition ex_det_thin :: detection where
  "ex_det_thin =
     \<lparr>bbox = \<lparr>box_x = 0.5, box_y = 0.5, box_w = 0.005, box_h = 0.2\<rparr>, prob = ex_prob\<rparr>"

definition ex_det_beyond :: detection where
  "ex_det_beyond =
     \<lparr>bbox = \<lparr>box_x = 2, box_y = 0.5, box_w = 0.5, box_h = 0.5\<rparr>, prob = ex_prob\<rparr>"

text \<open>
  A node with room for two hundred records, and a frame in which a hundred and one
  boxes are decoded, each with one surviving class.
\<close>

definition ex_crowd_node :: YoloObjectDetector where
  "ex_crowd_node = ex_node\<lparr>roiBoxes := replicate 200 zero_RosBox\<rparr>"

definition ex_crowd :: "detection list" where
  "ex_crowd = replicate 101 ex_det_over"

text \<open>
  Stand-ins for the functions of darknet: the network keeps its outputs, the decoder
  returns the three boxes above, suppression and drawing change nothing, and every
  frame becomes the same image.
\<close>

definition ex_darknet :: darknet where
  "ex_darknet =
     \<lparr>network_predict = (\<lambda>nw X. nw),
      get_network_boxes = (\<lambda>nw w h thresh hier. [ex_det_thin, ex_det_over, ex_det_beyond]),
      do_nms_obj = (\<lambda>dets n overlap. dets),
      draw_detections = (\<lambda>im dets thresh n. im),
      ipl_to_image = (\<lambda>m. ex_image),
      ipl_into_image = (\<lambda>m im. ex_image),
      letterbox_image = (\<lambda>im w h. im),
      rgbgr_image = (\<lambda>im. im),
      letterbox_image_into = (\<lambda>im w h out. im)\<rparr>"

text \<open>
  The example node after one pass without a key in which the stages run one after the
  other: fetch, detect, display, publish.
\<close>

definition ex_record :: RosBox where
  "ex_record =
     \<lparr>rb_x = 17 / 20, rb_y = 1 / 2, rb_w = 3 / 10, rb_h = 1 / 2, rb_z = Finite 4,
      rb_num = 1, rb_Class = 0, rb_prob = 9 / 10\<rparr>"

definition ex_boxes_msg :: BoundingBoxes where
  "ex_boxes_msg =
     \<lparr>bbs_header = \<lparr>seq = 0, stamp = 100, frame_id = ''detection''\<rparr>,
      bbs_image_header = ex_header,
      bounding_boxes =
        [\<lparr>bb_Class = ''person'', bb_probability = 9 / 10, bb_xmin = 2, bb_ymin = 1,
          bb_xmax = 4, bb_ymax = 3, bb_z = Finite 4\<rparr>]\<rparr>"

definition ex_node_after :: YoloObjectDetector where
  "ex_node_after =
     ex_node
       \<lparr>buffIndex := 1,
        net := ex_net\<lparr>layers :=
                 [\<lparr>ltype = CONVOLUTIONAL, outputs = 8, l_output = [], classes = 0,
                   l_w = 2, l_h = 2, l_n = 2\<rparr>,
                  \<lparr>ltype = YOLO, outputs = 4, l_output = [1 / 2, 1, 3 / 2, 2], classes = 2,
                   l_w = 2, l_h = 2, l_n = 1\<rparr>]\<rparr>,
        predictions := [[1, 2, 3, 4], [0, 0, 0, 0]],
        avg := [1 / 2, 1, 3 / 2, 2],
        demoIndex := 1,
        roiBoxes := [ex_record, zero_RosBox, zero_RosBox, zero_RosBox],
        boundingBoxesResults := ex_boxes_msg\<lparr>bounding_boxes := []\<rparr>,
        objectPublished := [1],
        boundingBoxesPublished := [ex_boxes_msg]\<rparr>"

text \<open>
  The temporal averager in the words of the specification: the raw output vector of
  the network, which is the outputs of its detection layers one after the other; the
  unweighted arithmetic mean, element by element, of the rows of the history; and
  the shape in which the set-up of the loop leaves the history (\<open>W\<close> rows, each as long
  as the raw output vector, and a mean of that length).
\<close>

definition detection_outputs :: "network \<Rightarrow> real list" where
  "detection_outputs nw = concat (map l_output (filter is_detection_layer (layers nw)))"

definition elementwise_mean :: "real list list \<Rightarrow> nat \<Rightarrow> real list" where
  "elementwise_mean hist n =
     map (\<lambda>k. sum_list (map (\<lambda>row. row ! k) hist) / real (length hist)) [0..<n]"

definition layers_sized :: "network \<Rightarrow> bool" where
  "layers_sized nw =
     list_all (\<lambda>l. is_detection_layer l \<longrightarrow> length (l_output l) = outputs l) (layers nw)"

definition averager_ready :: "YoloObjectDetector \<Rightarrow> network \<Rightarrow> bool" where
  "averager_ready st nw =
     (0 < demoFrame st \<and> length (predictions st) = demoFrame st
      \<and> list_all (\<lambda>row. length row = demoTotal st) (predictions st)
      \<and> length (avg st) = demoTotal st \<and> demoTotal st = sizeNetwork nw
      \<and> layers_sized nw \<and> demoIndex st < demoFrame st \<and> buff st \<noteq> [])"

text \<open>The example node with the same vector in both rows of the history.\<close>

definition ex_same :: YoloObjectDetector where
  "ex_same = ex_node\<lparr>predictions := [[1, 2, 3, 4], [1, 2, 3, 4]]\<rparr>"

text \<open>
  What a pass of the loop needs in order to stay inside its arrays.  Of darknet: that
  inference keeps the kinds and the sizes of the layers, and that the surviving
  detections among the boxes it decodes fit into \<^verbatim>\<open>roiBoxes_\<close>.  Of the node: the
  ring index is 0, 1 or 2, the arrays of the ring have three entries, the history has
  the shape of the set-up, the frame dimensions fit the depth map, the count in
  \<^verbatim>\<open>roiBoxes_[0].num\<close> does not exceed the number of entries, and the vectors of the
  publish stage have an entry for each class and are cleared.
\<close>

definition darknet_keeps_shape :: "darknet \<Rightarrow> bool" where
  "darknet_keeps_shape dk =
     (\<forall>nw X. layers_sized nw \<longrightarrow>
        layers_sized (network_predict dk nw X)
        \<and> map ltype (layers (network_predict dk nw X)) = map ltype (layers nw)
        \<and> map outputs (layers (network_predict dk nw X)) = map outputs (layers nw))"

definition boxes_fit :: "darknet \<Rightarrow> YoloObjectDetector \<Rightarrow> bool" where
  "boxes_fit dk st =
     (\<forall>nw w h thresh hier c.
        length (survivors (demoClasses st)
                  (do_nms_obj dk (get_network_boxes dk nw w h thresh hier) c nms))
          \<le> length (roiBoxes st))"

definition pipeline_ready :: "darknet \<Rightarrow> YoloObjectDetector \<Rightarrow> bool" where
  "pipeline_ready dk st =
     (buffIndex st \<in> {0, 1, 2}
      \<and> length (buff st) = 3 \<and> length (buffLetter st) = 3
      \<and> length (headerBuff st) = 3 \<and> length (buffId st) = 3
      \<and> layers (net st) \<noteq> [] \<and> averager_ready st (net st) \<and> depth_readable st
      \<and> roiBoxes st \<noteq> [] \<and> nat (rb_num (roiBoxes st ! 0)) \<le> length (roiBoxes st)
      \<and> length (rosBoxes st) = numClasses st \<and> length (rosBoxCounter st) = numClasses st
      \<and> length (classLabels st) = numClasses st
      \<and> list_all2 (\<lambda>c bs. c = length bs) (rosBoxCounter st) (rosBoxes st)
      \<and> darknet_keeps_shape dk \<and> boxes_fit dk st)"

text \<open>
  Whether the fetch stage comes before the publish stage in a schedule.  Two schedules:
  the stages one after the other in the order of the source text, and the two stages
  of the thread of the loop before the two threads have done anything.  And the
  example node after a streaming frame and a request with the id 42 have come in.
\<close>

definition fetch_before_publish :: "stage list \<Rightarrow> bool" where
  "fetch_before_publish sched = (Fetch \<in> set (takeWhile (\<lambda>s. s \<noteq> Publish) sched))"

definition ex_in_order :: "stage list" where
  "ex_in_order = [Fetch, Detect, Display, Publish]"

definition ex_publish_first :: "stage list" where
  "ex_publish_first = [Display, Publish, Fetch, Detect]"

definition ex_goal :: CheckForObjectsGoal where
  "ex_goal = \<lparr>goal_id = 42, goal_image = ex_msg\<rparr>"

definition ex_requested :: YoloObjectDetector where
  "ex_requested =
     checkForObjectsActionGoalCB cvb_accepts ex_goal
       (zedCameraCallback cvb_accepts ex_msg ex_msg ex_node)"

section \<open>Properties of the ring index\<close>

lemma smod_3_nonneg: "0 \<le> k \<Longrightarrow> (k::int) smod 3 = k mod 3"
  by (simp add: signed_modulo_int_def sgn_if)

lemma advance_buffIndex_range:
  "0 \<le> i \<Longrightarrow> advance_buffIndex i \<in> {0, 1, 2}"
proof -
  assume "0 \<le> i"
  then have "advance_buffIndex i = (i + 1) mod 3"
    by (simp add: advance_buffIndex_def smod_3_nonneg)
  moreover have "0 \<le> (i + 1) mod 3" "(i + 1) mod 3 < 3"
    by simp_all
  ultimately show ?thesis by auto
qed

lemma advance_buffIndex_iterate_range:
  "0 \<le> i \<Longrightarrow> (advance_buffIndex ^^ Suc n) i \<in> {0, 1, 2}"
proof (induction n)
  case 0
  then show ?case using advance_buffIndex_range [of i] by simp
next
  case (Suc n)
  then have "0 \<le> (advance_buffIndex ^^ Suc n) i" by auto
  then show ?case
    using advance_buffIndex_range [of "(advance_buffIndex ^^ Suc n) i"] by simp
qed

text \<open>
  Claim C5.  In an iteration of the scheduler loop whose ring index \<open>i\<close> is 0, 1 or 2,
  the slot written by fetch (\<open>i\<close>), the slot read by detect (\<open>(i + 2) % 3\<close>) and the
  slot read by display (\<open>(i + 1) % 3\<close>) are pairwise distinct, and together they are
  exactly the three slots 0, 1 and 2.
\<close>

theorem ring_slots_permutation:
  assumes "i \<in> {0, 1, 2}"
  shows "distinct [fetch_slot i, detect_slot i, display_slot i]
       \<and> set [fetch_slot i, detect_slot i, display_slot i] = {0, 1, 2}"
proof -
  from assms consider "i = 0" | "i = 1" | "i = 2" by auto
  then show ?thesis
    by cases
      (auto simp: fetch_slot_def detect_slot_def display_slot_def signed_modulo_int_def)
qed

theorem ring_slots_permutation_witness:
  "(1::int) \<in> {0, 1, 2}
   \<and> [fetch_slot 1, detect_slot 1, display_slot 1] = [1, 0, 2]
   \<and> distinct [fetch_slot 1, detect_slot 1, display_slot 1]
   \<and> set [fetch_slot 1, detect_slot 1, display_slot 1] = {0, 1, 2}"
  using ring_slots_permutation [of 1]
  by (simp add: fetch_slot_def detect_slot_def display_slot_def signed_modulo_int_def)

section \<open>Properties of frame ingestion\<close>

lemma zedCameraCallback_throw:
  assumes "(\<exists>e. toCvCopy_BGR8 cvb img_msg = Inl e) \<or> (\<exists>e. toCvCopy_32FC1 cvb dmap_msg = Inl e)"
  shows "\<exists>e. zedCameraCallback cvb img_msg dmap_msg st = ros_error e st"
  using assms by (auto simp: zedCameraCallback_def split: sum.splits option.splits)

lemma checkForObjectsActionGoalCB_throw:
  assumes "toCvCopy_BGR8 cvb (goal_image g) = Inl e"
  shows "checkForObjectsActionGoalCB cvb g st =
     ros_error e (st\<lparr>checkForObjectsActionServer :=
                      acceptNewGoal (checkForObjectsActionServer st)\<rparr>)"
  using assms by (simp add: checkForObjectsActionGoalCB_def Let_def)

text \<open>
  Claim C9.  When the conversion of a frame throws, on the streaming path (the colour
  image or the depth map) or on the on-demand path, the callback logs one diagnostic
  and returns; the staged frame, the depth map, the header, the correlation id, the
  image-available flag, the frame dimensions and the semaphore are as before.  On the
  streaming path nothing else changes either; on the on-demand path the goal has
  been accepted by the action server before the conversion is tried.
\<close>

theorem decode_failure_keeps_staged_frame:
  "(((\<exists>e. toCvCopy_BGR8 cvb img_msg = Inl e) \<or> (\<exists>e. toCvCopy_32FC1 cvb dmap_msg = Inl e)) \<longrightarrow>
      (\<exists>e. zedCameraCallback cvb img_msg dmap_msg st
             = st\<lparr>rosout := rosout st @ [''cv_bridge exception: '' @ e]\<rparr>)
      \<and> staged_unchanged st (zedCameraCallback cvb img_msg dmap_msg st))
   \<and> (toCvCopy_BGR8 cvb (goal_image g) = Inl e' \<longrightarrow>
        checkForObjectsActionGoalCB cvb g st
          = st\<lparr>checkForObjectsActionServer := acceptNewGoal (checkForObjectsActionServer st),
                rosout := rosout st @ [''cv_bridge exception: '' @ e']\<rparr>
        \<and> staged_unchanged st (checkForObjectsActionGoalCB cvb g st))"
proof (intro conjI impI)
  assume a: "(\<exists>e. toCvCopy_BGR8 cvb img_msg = Inl e) \<or> (\<exists>e. toCvCopy_32FC1 cvb dmap_msg = Inl e)"
  from zedCameraCallback_throw [OF a] obtain e where
    e: "zedCameraCallback cvb img_msg dmap_msg st = ros_error e st" ..
  then show "\<exists>e. zedCameraCallback cvb img_msg dmap_msg st
             = st\<lparr>rosout := rosout st @ [''cv_bridge exception: '' @ e]\<rparr>"
    by (auto simp: ros_error_def)
  from e show "staged_unchanged st (zedCameraCallback cvb img_msg dmap_msg st)"
    by (simp add: ros_error_def staged_unchanged_def)
next
  assume a: "toCvCopy_BGR8 cvb (goal_image g) = Inl e'"
  show "checkForObjectsActionGoalCB cvb g st
          = st\<lparr>checkForObjectsActionServer := acceptNewGoal (checkForObjectsActionServer st),
                rosout := rosout st @ [''cv_bridge exception: '' @ e']\<rparr>"
    by (simp add: checkForObjectsActionGoalCB_throw [OF a] ros_error_def)
  show "staged_unchanged st (checkForObjectsActionGoalCB cvb g st)"
    by (simp add: checkForObjectsActionGoalCB_throw [OF a] ros_error_def staged_unchanged_def)
qed

theorem decode_failure_keeps_staged_frame_witness:
  "toCvCopy_BGR8 cvb_throws ex_msg = Inl ''unsupported conversion''
   \<and> zedCameraCallback cvb_throws ex_msg ex_msg ex_node
       = ex_node\<lparr>rosout := [''cv_bridge exception: unsupported conversion'']\<rparr>
   \<and> staged_unchanged ex_node (zedCameraCallback cvb_throws ex_msg ex_msg ex_node)
   \<and> staged_unchanged ex_node
        (checkForObjectsActionGoalCB cvb_throws \<lparr>goal_id = 42, goal_image = ex_msg\<rparr> ex_node)
   \<and> actionId (checkForObjectsActionGoalCB cvb_throws \<lparr>goal_id = 42, goal_image = ex_msg\<rparr> ex_node) = 0
   \<and> rosout (checkForObjectsActionGoalCB cvb_throws \<lparr>goal_id = 42, goal_image = ex_msg\<rparr> ex_node)
       = [''cv_bridge exception: unsupported conversion'']"
  using decode_failure_keeps_staged_frame
    [of cvb_throws ex_msg ex_msg ex_node "\<lparr>goal_id = 42, goal_image = ex_msg\<rparr>"
        "''unsupported conversion''"]
  by (simp add: cvb_throws_def ex_node_def zedCameraCallback_def ros_error_def
      checkForObjectsActionGoalCB_def staged_unchanged_def acceptNewGoal_def)

text \<open>
  Claim C10.  The on-demand callback never touches the staged depth map, the staged
  header or the semaphore.  When the request frame is converted, the callback sets
  the staged colour frame, the correlation id, the image-available flag and the frame
  dimensions (and the action server has accepted the goal), and nothing else; so the
  header that the fetch stage reads next, and every depth sample, still come from the
  last streaming frame, the depth map being indexed with the dimensions of the
  request frame.
\<close>

theorem request_frame_keeps_depth_and_header:
  "camDmapCopy (checkForObjectsActionGoalCB cvb g st) = camDmapCopy st
   \<and> imageHeader (checkForObjectsActionGoalCB cvb g st) = imageHeader st
   \<and> sem_new_image (checkForObjectsActionGoalCB cvb g st) = sem_new_image st
   \<and> snd (getIplImageWithHeader (checkForObjectsActionGoalCB cvb g st)) = imageHeader st
   \<and> (toCvCopy_BGR8 cvb (goal_image g) = Inr (Some im) \<longrightarrow>
        checkForObjectsActionGoalCB cvb g st
          = st\<lparr>checkForObjectsActionServer := acceptNewGoal (checkForObjectsActionServer st),
                camImageCopy := im, actionId := goal_id g, imageStatus := True,
                frameWidth := cols im, frameHeight := rows im\<rparr>
        \<and> (\<forall>xv yv. read_depth (checkForObjectsActionGoalCB cvb g st) xv yv
              = Mat_at (camDmapCopy st) (int_cast (yv * real_of_int (rows im)))
                  (int_cast (xv * real_of_int (cols im)))))"
  by (auto simp: checkForObjectsActionGoalCB_def Let_def ros_error_def getIplImageWithHeader_def
      read_depth_def split: sum.splits option.splits)

theorem request_frame_keeps_depth_and_header_witness:
  "camDmapCopy (checkForObjectsActionGoalCB cvb_accepts \<lparr>goal_id = 42, goal_image = ex_msg\<rparr>
      (zedCameraCallback cvb_accepts ex_msg ex_msg ex_node)) = ex_dmap
   \<and> imageHeader (checkForObjectsActionGoalCB cvb_accepts \<lparr>goal_id = 42, goal_image = ex_msg\<rparr>
      (zedCameraCallback cvb_accepts ex_msg ex_msg ex_node)) = msg_header ex_msg
   \<and> actionId (checkForObjectsActionGoalCB cvb_accepts \<lparr>goal_id = 42, goal_image = ex_msg\<rparr>
      (zedCameraCallback cvb_accepts ex_msg ex_msg ex_node)) = 42"
  using request_frame_keeps_depth_and_header
    [of cvb_accepts "\<lparr>goal_id = 42, goal_image = ex_msg\<rparr>"
        "zedCameraCallback cvb_accepts ex_msg ex_msg ex_node"]
  by (simp add: cvb_accepts_def zedCameraCallback_def checkForObjectsActionGoalCB_def)

section \<open>Properties of the depth estimate\<close>

lemma push_if_normal_valid: "push_if_normal d acc = acc @ valid_values [d]"
  by (cases d) simp_all

lemma valid_values_append: "valid_values (rs @ rs') = valid_values rs @ valid_values rs'"
  by (induction rs rule: valid_values.induct) simp_all

lemma valid_values_Cons: "valid_values (d # rs) = valid_values [d] @ valid_values rs"
  using valid_values_append [of "[d]" rs] by simp

text \<open>The loop reads the nine pixels in order and keeps the valid readings.\<close>

lemma depth_loop_those:
  "depth_loop st xmin xmax ymin ymax ps acc =
     (case those (map (\<lambda>(i, j). read_depth st (sample_x xmin xmax j) (sample_y ymin ymax i)) ps) of
        None \<Rightarrow> None
      | Some rs \<Rightarrow> Some (acc @ valid_values rs))"
proof (induction ps arbitrary: acc)
  case Nil
  then show ?case by simp
next
  case (Cons p ps)
  obtain i j where p: "p = (i, j)" by (cases p)
  show ?case
  proof (cases "read_depth st (sample_x xmin xmax j) (sample_y ymin ymax i)")
    case None
    then show ?thesis by (simp add: p)
  next
    case (Some d)
    then show ?thesis
      by (simp add: p Cons.IH push_if_normal_valid valid_values_Cons [of d, symmetric]
          split: option.splits)
  qed
qed

lemma getObjDepth_readings:
  "getObjDepth st xmin xmax ymin ymax =
     (case sample_readings st xmin xmax ymin ymax of
        None \<Rightarrow> None
      | Some rs \<Rightarrow> Some (pick_depth (valid_values rs)))"
  by (simp add: getObjDepth_def depth_loop_those sample_readings_def sample_points_def
      comp_def case_prod_unfold split: option.splits)

lemma those_length: "those xs = Some ys \<Longrightarrow> length ys = length xs"
  by (induction xs arbitrary: ys) (auto split: option.splits)

lemma grid_eq:
  "grid = [(1, 1), (1, 2), (1, 3), (2, 1), (2, 2), (2, 3), (3, 1), (3, 2), (3, 3)]"
  by (simp add: grid_def refs_def upt_rec)

lemma length_grid: "length grid = 9"
  by (simp add: grid_eq)

lemma set_grid: "set grid = {1, 2, 3} \<times> {1, 2, 3}"
  unfolding grid_eq by auto

lemma sample_readings_length:
  "sample_readings st xmin xmax ymin ymax = Some rs \<Longrightarrow> length rs = 9"
  by (auto simp: sample_readings_def sample_points_def length_grid dest: those_length)

text \<open>The second entry of a sorted list is its second-smallest value.\<close>

lemma sorted_second:
  assumes "sorted (x # y # rest)"
  shows "is_second_smallest y (x # y # rest)"
proof -
  have "\<forall>z \<in> set rest. y \<le> z" using assms by auto
  then have "filter (\<lambda>v. v < y) rest = []" by (auto simp: filter_empty_conv)
  moreover have "x \<le> y" using assms by simp
  ultimately show ?thesis by (simp add: is_second_smallest_def)
qed

lemma is_second_smallest_sort:
  "is_second_smallest r (sort vs) = is_second_smallest r vs"
proof -
  have "\<And>P. length (filter P (sort vs)) = length (filter P vs)"
    by (simp add: filter_sort)
  then show ?thesis by (simp add: is_second_smallest_def)
qed

text \<open>A list has at most one second-smallest value.\<close>

lemma is_second_smallest_unique:
  assumes "is_second_smallest r vs" "is_second_smallest r' vs"
  shows "r = r'"
proof (rule ccontr)
  assume ne: "r \<noteq> r'"
  have below: "False"
    if ab: "a < b" and a: "is_second_smallest a vs" and b: "is_second_smallest b vs"
    for a b :: real
  proof -
    have "\<And>v. v \<le> a \<Longrightarrow> v < b" using ab by simp
    then have "length (filter (\<lambda>v. v \<le> a) vs) \<le> length (filter (\<lambda>v. v < b) vs)"
      by (induction vs) auto
    then show False using a b by (simp add: is_second_smallest_def)
  qed
  from ne consider "r < r'" | "r' < r" by linarith
  then show False using below assms by cases blast+
qed

lemma pick_depth_estimate: "is_depth_estimate vs (pick_depth vs)"
proof -
  consider "vs = []" | v where "vs = [v]" | "2 \<le> length vs"
    by (cases vs rule: list.exhaust; cases "tl vs") auto
  then show ?thesis
  proof cases
    case 1
    then show ?thesis by (simp add: is_depth_estimate_def pick_depth_def)
  next
    case 2
    then show ?thesis by (simp add: is_depth_estimate_def pick_depth_def)
  next
    case 3
    then have "2 \<le> length (sort vs)" by simp
    then obtain x y rest where s: "sort vs = x # y # rest"
      by (cases "sort vs"; cases "tl (sort vs)") auto
    have "sorted (x # y # rest)" using sorted_sort [of vs] s by simp
    then have "is_second_smallest y (sort vs)" using sorted_second s by simp
    then have "is_second_smallest y vs" by (simp add: is_second_smallest_sort)
    then show ?thesis using 3 s by (simp add: is_depth_estimate_def pick_depth_def Let_def)
  qed
qed

text \<open>The sample points lie strictly inside the box.\<close>

lemma sample_x_inside:
  assumes "xmin < xmax" "1 \<le> j" "j \<le> 3"
  shows "xmin < sample_x xmin xmax j \<and> sample_x xmin xmax j < xmax"
proof -
  have w: "0 < xmax - xmin" using assms by simp
  have j: "0 < real j" "real j < 4" using assms by simp_all
  have "0 < real j * (xmax - xmin)" using w j by simp
  moreover have "real j * (xmax - xmin) < 4 * (xmax - xmin)"
    by (rule mult_strict_right_mono) (use w j in simp_all)
  ultimately show ?thesis by (simp add: sample_x_def refs_def)
qed

lemma sample_y_inside:
  assumes "ymin < ymax" "1 \<le> i" "i \<le> 3"
  shows "ymin < sample_y ymin ymax i \<and> sample_y ymin ymax i < ymax"
proof -
  have "sample_y ymin ymax i = sample_x ymin ymax i"
    by (simp add: sample_x_def sample_y_def)
  then show ?thesis using sample_x_inside [OF assms] by (simp only:)
qed

lemma sample_points_inside:
  assumes "xmin < xmax" "ymin < ymax" "(xv, yv) \<in> set (sample_points xmin xmax ymin ymax)"
  shows "xmin < xv \<and> xv < xmax \<and> ymin < yv \<and> yv < ymax"
proof -
  from assms(3) obtain i j where ij: "(i, j) \<in> set grid"
      and xv: "xv = sample_x xmin xmax j" and yv: "yv = sample_y ymin ymax i"
    by (auto simp: sample_points_def)
  from ij have b: "1 \<le> i" "i \<le> 3" "1 \<le> j" "j \<le> 3" by (auto simp: set_grid)
  show ?thesis
    unfolding xv yv
    using sample_x_inside [OF assms(1) b(3,4)] sample_y_inside [OF assms(2) b(1,2)]
    by blast
qed

text \<open>A point of the unit frame has a pixel in a depth map that the frame fits.\<close>

lemma int_cast_range:
  assumes "0 \<le> v" "v < 1" "0 < n"
  shows "0 \<le> int_cast (v * real_of_int n) \<and> int_cast (v * real_of_int n) < n"
proof -
  have nn: "0 \<le> v * real_of_int n" using assms by simp
  have "v * real_of_int n < 1 * real_of_int n"
    using assms by (intro mult_strict_right_mono) simp_all
  then have "\<lfloor>v * real_of_int n\<rfloor> < n" by (simp add: floor_less_iff)
  moreover have "0 \<le> \<lfloor>v * real_of_int n\<rfloor>" using nn by simp
  ultimately show ?thesis using nn by (simp add: int_cast_def)
qed

lemma read_depth_in_range:
  assumes "0 \<le> xv" "xv < 1" "0 \<le> yv" "yv < 1"
    and "0 < frameWidth st" "frameWidth st \<le> cols (camDmapCopy st)"
    and "0 < frameHeight st" "frameHeight st \<le> rows (camDmapCopy st)"
  shows "\<exists>d. read_depth st xv yv = Some d"
proof -
  have "Mat_at (camDmapCopy st) (int_cast (yv * real_of_int (frameHeight st)))
       (int_cast (xv * real_of_int (frameWidth st)))
     = Some (pixel (camDmapCopy st) (int_cast (yv * real_of_int (frameHeight st)))
       (int_cast (xv * real_of_int (frameWidth st))))"
    unfolding Mat_at_def
    using int_cast_range [OF assms(1,2,5)] int_cast_range [OF assms(3,4,7)] assms(6,8)
    by (intro if_P) linarith
  then show ?thesis by (simp add: read_depth_def)
qed

lemma those_map_Some:
  assumes "\<forall>a \<in> set xs. \<exists>b. f a = Some b"
  shows "\<exists>ys. those (map f xs) = Some ys"
  using assms by (induction xs) auto

lemma sample_readings_total:
  assumes "0 \<le> xmin" "xmin < xmax" "xmax \<le> 1" "0 \<le> ymin" "ymin < ymax" "ymax \<le> 1"
    and "depth_readable st"
  shows "\<exists>rs. sample_readings st xmin xmax ymin ymax = Some rs"
  unfolding sample_readings_def
proof (rule those_map_Some, rule ballI)
  fix p assume p: "p \<in> set (sample_points xmin xmax ymin ymax)"
  obtain xv yv where xy: "p = (xv, yv)" by (cases p)
  from sample_points_inside [OF assms(2) assms(5)] p xy
  have "xmin < xv \<and> xv < xmax \<and> ymin < yv \<and> yv < ymax" by simp
  then have "0 \<le> xv" "xv < 1" "0 \<le> yv" "yv < 1" using assms by simp_all
  then show "\<exists>b. (case p of (xv, yv) \<Rightarrow> read_depth st xv yv) = Some b"
    using read_depth_in_range [of xv yv st] assms(7) xy by (simp add: depth_readable_def)
qed

lemma getObjDepth_total:
  assumes "0 \<le> xmin" "xmin < xmax" "xmax \<le> 1" "0 \<le> ymin" "ymin < ymax" "ymax \<le> 1"
    and "depth_readable st"
  shows "\<exists>zv. getObjDepth st xmin xmax ymin ymax = Some zv"
  using sample_readings_total [OF assms] by (auto simp: getObjDepth_readings)

text \<open>
  Claim C3.  \<^verbatim>\<open>getObjDepth\<close> reads the depth map at nine points, which lie strictly
  inside a box with \<open>xmin < xmax\<close> and \<open>ymin < ymax\<close>.  If a read falls outside the
  depth map the result is undefined.  Otherwise the result is the estimate of the
  specification on the valid (finite and normal) readings: the second-smallest of
  them if there are at least two, the only one if there is one, and \<^verbatim>\<open>NAN\<close> if there
  is none.  The reads are all inside the depth map when the box lies in the unit frame
  and the frame dimensions fit the depth map.
\<close>

theorem getObjDepth_second_smallest:
  "(case sample_readings st xmin xmax ymin ymax of
      None \<Rightarrow> getObjDepth st xmin xmax ymin ymax = None
    | Some rs \<Rightarrow>
        length rs = 9
        \<and> getObjDepth st xmin xmax ymin ymax = Some (pick_depth (valid_values rs))
        \<and> is_depth_estimate (valid_values rs) (pick_depth (valid_values rs)))
   \<and> length (sample_points xmin xmax ymin ymax) = 9
   \<and> (xmin < xmax \<and> ymin < ymax \<longrightarrow>
        list_all (\<lambda>(xv, yv). xmin < xv \<and> xv < xmax \<and> ymin < yv \<and> yv < ymax)
          (sample_points xmin xmax ymin ymax))
   \<and> (0 \<le> xmin \<and> xmin < xmax \<and> xmax \<le> 1 \<and> 0 \<le> ymin \<and> ymin < ymax \<and> ymax \<le> 1
        \<and> depth_readable st \<longrightarrow>
        sample_readings st xmin xmax ymin ymax \<noteq> None)"
proof (intro conjI impI)
  show "case sample_readings st xmin xmax ymin ymax of
      None \<Rightarrow> getObjDepth st xmin xmax ymin ymax = None
    | Some rs \<Rightarrow>
        length rs = 9
        \<and> getObjDepth st xmin xmax ymin ymax = Some (pick_depth (valid_values rs))
        \<and> is_depth_estimate (valid_values rs) (pick_depth (valid_values rs))"
    by (auto simp: getObjDepth_readings pick_depth_estimate sample_readings_length
        split: option.splits)
  show "length (sample_points xmin xmax ymin ymax) = 9"
    by (simp add: sample_points_def length_grid)
next
  assume a: "xmin < xmax \<and> ymin < ymax"
  show "list_all (\<lambda>(xv, yv). xmin < xv \<and> xv < xmax \<and> ymin < yv \<and> yv < ymax)
          (sample_points xmin xmax ymin ymax)"
    unfolding list_all_iff
  proof (rule ballI)
    fix p assume p: "p \<in> set (sample_points xmin xmax ymin ymax)"
    obtain xv yv where xy: "p = (xv, yv)" by (cases p)
    have "xmin < xv \<and> xv < xmax \<and> ymin < yv \<and> yv < ymax"
      by (rule sample_points_inside [of xmin xmax ymin ymax]) (use a p xy in simp_all)
    then show "case p of (xv, yv) \<Rightarrow> xmin < xv \<and> xv < xmax \<and> ymin < yv \<and> yv < ymax"
      by (simp add: xy)
  qed
next
  assume a: "0 \<le> xmin \<and> xmin < xmax \<and> xmax \<le> 1 \<and> 0 \<le> ymin \<and> ymin < ymax \<and> ymax \<le> 1
        \<and> depth_readable st"
  have "\<exists>rs. sample_readings st xmin xmax ymin ymax = Some rs"
    by (rule sample_readings_total) (use a in simp_all)
  then show "sample_readings st xmin xmax ymin ymax \<noteq> None"
    by (elim exE) simp
qed

theorem getObjDepth_second_smallest_witness:
  "sample_readings (ex_node\<lparr>camDmapCopy := ex_dmap_two\<rparr>) 0 1 0 1
       = Some [Finite 5, Finite 0, Finite 0, PlusInf, PlusInf, PlusInf, NaN, NaN, Finite 3]
   \<and> valid_values [Finite 5, Finite 0, Finite 0, PlusInf, PlusInf, PlusInf, NaN, NaN, Finite 3]
       = [5, 3]
   \<and> getObjDepth (ex_node\<lparr>camDmapCopy := ex_dmap_two\<rparr>) 0 1 0 1 = Some (Finite 5)
   \<and> is_depth_estimate [5, 3] (Finite 5)
   \<and> depth_readable (ex_node\<lparr>camDmapCopy := ex_dmap_two\<rparr>)
   \<and> list_all (\<lambda>(xv, yv). 0 < xv \<and> xv < 1 \<and> 0 < yv \<and> yv < 1) (sample_points 0 1 0 1)
   \<and> getObjDepth (ex_node\<lparr>camDmapCopy := ex_dmap_one\<rparr>) 0 1 0 1 = Some (Finite 7)
   \<and> getObjDepth (ex_node\<lparr>camDmapCopy := ex_dmap_none\<rparr>) 0 1 0 1 = Some NaN"
proof -
  have ev: "sample_points 0 1 0 1 =
     [(1 / 4, 1 / 4), (1 / 2, 1 / 4), (3 / 4, 1 / 4), (1 / 4, 1 / 2), (1 / 2, 1 / 2),
      (3 / 4, 1 / 2), (1 / 4, 3 / 4), (1 / 2, 3 / 4), (3 / 4, 3 / 4)]"
    by (simp add: sample_points_def grid_eq sample_x_def sample_y_def refs_def)
  have r2: "sample_readings (ex_node\<lparr>camDmapCopy := ex_dmap_two\<rparr>) 0 1 0 1
       = Some [Finite 5, Finite 0, Finite 0, PlusInf, PlusInf, PlusInf, NaN, NaN, Finite 3]"
    by (simp add: sample_readings_def ev read_depth_def Mat_at_def int_cast_def ex_node_def
        ex_dmap_two_def)
  have r1: "sample_readings (ex_node\<lparr>camDmapCopy := ex_dmap_one\<rparr>) 0 1 0 1
       = Some [MinusInf, MinusInf, MinusInf, MinusInf, Finite 7, MinusInf, MinusInf, MinusInf,
               MinusInf]"
    by (simp add: sample_readings_def ev read_depth_def Mat_at_def int_cast_def ex_node_def
        ex_dmap_one_def)
  have r0: "sample_readings (ex_node\<lparr>camDmapCopy := ex_dmap_none\<rparr>) 0 1 0 1
       = Some [NaN, NaN, NaN, NaN, NaN, NaN, NaN, NaN, NaN]"
    by (simp add: sample_readings_def ev read_depth_def Mat_at_def int_cast_def ex_node_def
        ex_dmap_none_def)
  have pd: "pick_depth [5, 3] = Finite 5" "pick_depth [7] = Finite 7" "pick_depth [] = NaN"
    by (simp_all add: pick_depth_def)
  have dr: "depth_readable (ex_node\<lparr>camDmapCopy := ex_dmap_two\<rparr>)"
    by (simp add: depth_readable_def ex_node_def ex_dmap_two_def)
  show ?thesis
    using getObjDepth_second_smallest [of "ex_node\<lparr>camDmapCopy := ex_dmap_two\<rparr>" 0 1 0 1]
      getObjDepth_second_smallest [of "ex_node\<lparr>camDmapCopy := ex_dmap_one\<rparr>" 0 1 0 1]
      getObjDepth_second_smallest [of "ex_node\<lparr>camDmapCopy := ex_dmap_none\<rparr>" 0 1 0 1]
    by (simp add: r2 r1 r0 pd dr FLT_MIN_def)
qed

section \<open>Properties of the detect stage\<close>

text \<open>One pass of the body of the loop over the classes.\<close>

lemma class_step_cases:
  assumes "class_step st d (clip_edges (box_edges (bbox d))) j (roi, count) = Some (roi', count')"
  shows "(survives d j \<and> count < length roi \<and> count' = Suc count
          \<and> is_record_of st d j (roi' ! count) \<and> roi' = roi[count := roi' ! count])
       \<or> (\<not> survives d j \<and> roi' = roi \<and> count' = count)"
  using assms
  by (auto simp: class_step_def survives_def is_record_of_def write_roiBox_def Let_def
      split: if_splits option.splits)

text \<open>
  The loop over the classes writes the records of the surviving classes of the box,
  in order, from the entry \<open>count\<close> on, and leaves the other entries alone.
\<close>

lemma class_loop_Some:
  assumes "class_loop st d (clip_edges (box_edges (bbox d))) js (roi, count) = Some (roi', count')"
  shows "length roi' = length roi
       \<and> count' = count + length (filter (survives d) js)
       \<and> (count \<le> length roi \<longrightarrow> count' \<le> length roi)
       \<and> (\<forall>k. k < count \<or> count' \<le> k \<longrightarrow> roi' ! k = roi ! k)
       \<and> (\<forall>k < length (filter (survives d) js).
            is_record_of st d (filter (survives d) js ! k) (roi' ! (count + k)))"
  using assms
proof (induction js arbitrary: roi count)
  case Nil
  then show ?case by simp
next
  case (Cons j js)
  from Cons.prems obtain roi1 count1 where
    s: "class_step st d (clip_edges (box_edges (bbox d))) j (roi, count) = Some (roi1, count1)"
    and l: "class_loop st d (clip_edges (box_edges (bbox d))) js (roi1, count1) = Some (roi', count')"
    by (auto split: option.splits)
  note ih = Cons.IH [OF l]
  from class_step_cases [OF s] show ?case
  proof
    assume a: "survives d j \<and> count < length roi \<and> count1 = Suc count
          \<and> is_record_of st d j (roi1 ! count) \<and> roi1 = roi[count := roi1 ! count]"
    then have len: "length roi1 = length roi"
      by (metis length_list_update)
    have other: "\<And>k. k \<noteq> count \<Longrightarrow> roi1 ! k = roi ! k"
      using a by (metis nth_list_update_neq)
    have c1: "length roi' = length roi" using ih len by simp
    have c2: "count' = count + length (filter (survives d) (j # js))" using ih a by simp
    have c3: "count \<le> length roi \<longrightarrow> count' \<le> length roi" using ih a len by simp
    have c4: "\<forall>k. k < count \<or> count' \<le> k \<longrightarrow> roi' ! k = roi ! k"
    proof (intro allI impI)
      fix k assume k: "k < count \<or> count' \<le> k"
      then have "k < count1 \<or> count' \<le> k" using a by auto
      then have "roi' ! k = roi1 ! k" using ih by blast
      moreover have "k \<noteq> count" using k c2 a by auto
      ultimately show "roi' ! k = roi ! k" using other by simp
    qed
    have c5: "\<forall>k < length (filter (survives d) (j # js)).
            is_record_of st d (filter (survives d) (j # js) ! k) (roi' ! (count + k))"
    proof (intro allI impI)
      fix k assume k: "k < length (filter (survives d) (j # js))"
      show "is_record_of st d (filter (survives d) (j # js) ! k) (roi' ! (count + k))"
      proof (cases k)
        case 0
        have "roi' ! count = roi1 ! count" using ih a by auto
        then show ?thesis using a 0 by simp
      next
        case (Suc k')
        then have k': "k' < length (filter (survives d) js)" using k a by simp
        then have "is_record_of st d (filter (survives d) js ! k') (roi' ! (count1 + k'))"
          using ih by blast
        then show ?thesis using a Suc by simp
      qed
    qed
    from c1 c2 c3 c4 c5 show ?thesis by blast
  next
    assume "\<not> survives d j \<and> roi1 = roi \<and> count1 = count"
    with ih show ?thesis by auto
  qed
qed

lemma survivors_Cons:
  "survivors ncls (d # ds) = map (\<lambda>j. (d, j)) (filter (survives d) [0..<ncls]) @ survivors ncls ds"
  by (simp add: survivors_def)

lemma survivors_survive:
  assumes "k < length (survivors ncls dets)"
  shows "survives (fst (survivors ncls dets ! k)) (snd (survivors ncls dets ! k))
       \<and> fst (survivors ncls dets ! k) \<in> set dets \<and> snd (survivors ncls dets ! k) < ncls"
proof -
  have "survivors ncls dets ! k \<in> set (survivors ncls dets)"
    using assms by simp
  then show ?thesis by (auto simp: survivors_def)
qed

text \<open>The same for the loop over the boxes.\<close>

lemma box_loop_Some:
  assumes "box_loop st dets (roi, count) = Some (roi', count')"
  shows "length roi' = length roi
       \<and> count' = count + length (survivors (demoClasses st) dets)
       \<and> (count \<le> length roi \<longrightarrow> count' \<le> length roi)
       \<and> (\<forall>k. k < count \<or> count' \<le> k \<longrightarrow> roi' ! k = roi ! k)
       \<and> (\<forall>k < length (survivors (demoClasses st) dets).
            is_record_of st (fst (survivors (demoClasses st) dets ! k))
              (snd (survivors (demoClasses st) dets ! k)) (roi' ! (count + k)))"
  using assms
proof (induction dets arbitrary: roi count)
  case Nil
  then show ?case by (simp add: survivors_def)
next
  case (Cons d ds)
  let ?js = "filter (survives d) [0..<demoClasses st]"
  let ?sv = "survivors (demoClasses st)"
  from Cons.prems obtain roi1 count1 where
    s: "class_loop st d (clip_edges (box_edges (bbox d))) [0..<demoClasses st] (roi, count)
          = Some (roi1, count1)"
    and l: "box_loop st ds (roi1, count1) = Some (roi', count')"
    by (auto split: option.splits)
  note ih = Cons.IH [OF l]
  note cl = class_loop_Some [OF s]
  have c1: "length roi' = length roi" using ih cl by simp
  have count1: "count1 = count + length ?js" using cl by simp
  have c2: "count' = count + length (?sv (d # ds))"
    using ih count1 by (simp add: survivors_Cons)
  have c3: "count \<le> length roi \<longrightarrow> count' \<le> length roi"
  proof
    assume "count \<le> length roi"
    then have "count1 \<le> length roi1" using cl by simp
    then have "count' \<le> length roi1" using ih by blast
    then show "count' \<le> length roi" using cl by simp
  qed
  have c4: "\<forall>k. k < count \<or> count' \<le> k \<longrightarrow> roi' ! k = roi ! k"
  proof (intro allI impI)
    fix k assume k: "k < count \<or> count' \<le> k"
    have "count \<le> count1" "count1 \<le> count'" using count1 ih by simp_all
    with k have "(k < count1 \<or> count' \<le> k) \<and> (k < count \<or> count1 \<le> k)" by auto
    then show "roi' ! k = roi ! k" using ih cl by metis
  qed
  have c5: "\<forall>k < length (?sv (d # ds)).
            is_record_of st (fst (?sv (d # ds) ! k)) (snd (?sv (d # ds) ! k)) (roi' ! (count + k))"
  proof (intro allI impI)
    fix k assume k: "k < length (?sv (d # ds))"
    show "is_record_of st (fst (?sv (d # ds) ! k)) (snd (?sv (d # ds) ! k)) (roi' ! (count + k))"
    proof (cases "k < length ?js")
      case True
      then have e: "?sv (d # ds) ! k = (d, ?js ! k)"
        by (simp add: survivors_Cons nth_append)
      have "is_record_of st d (?js ! k) (roi1 ! (count + k))"
        using cl True by blast
      moreover have "roi' ! (count + k) = roi1 ! (count + k)"
        using ih True count1 by simp
      ultimately show ?thesis using e by simp
    next
      case False
      define k' where "k' = k - length ?js"
      have kk: "k = length ?js + k'" using False k'_def by simp
      have k': "k' < length (?sv ds)" using k kk by (simp add: survivors_Cons)
      have e: "?sv (d # ds) ! k = ?sv ds ! k'"
        using kk by (simp add: survivors_Cons nth_append)
      have "is_record_of st (fst (?sv ds ! k')) (snd (?sv ds ! k')) (roi' ! (count1 + k'))"
        using ih k' by blast
      moreover have "count1 + k' = count + k" using count1 kk by simp
      ultimately show ?thesis using e by simp
    qed
  qed
  from c1 c2 c3 c4 c5 show ?case by blast
qed

lemma is_record_of_num [simp]:
  "is_record_of st d j (rb\<lparr>rb_num := n\<rparr>) = is_record_of st d j rb"
  by (simp add: is_record_of_def)

text \<open>
  The extraction of the boxes: the count is the number of surviving detections, the
  first entries of \<^verbatim>\<open>roiBoxes_\<close> hold their records in order, and the first entry
  holds the count.
\<close>

lemma extract_boxes_Some:
  assumes "extract_boxes st dets = Some (roi, count)"
  shows "count = length (survivors (demoClasses st) dets)
       \<and> length roi = length (roiBoxes st) \<and> 0 < length roi \<and> count \<le> length roi
       \<and> rb_num (roi ! 0) = int count
       \<and> (\<forall>k < count. is_record_of st (fst (survivors (demoClasses st) dets ! k))
              (snd (survivors (demoClasses st) dets ! k)) (roi ! k))"
proof -
  from assms obtain roi1 where
    b: "box_loop st dets (roiBoxes st, 0) = Some (roi1, count)"
    and n: "set_num roi1 count = Some roi"
    by (auto simp: extract_boxes_def split: option.splits)
  note bl = box_loop_Some [OF b]
  from n obtain rb rest where r1: "roi1 = rb # rest"
    and roi: "roi = (if count = 0 then rb\<lparr>rb_num := 0\<rparr> else rb\<lparr>rb_num := int count\<rparr>) # rest"
    by (auto simp: set_num_def split: list.splits)
  have c1: "count = length (survivors (demoClasses st) dets)" using bl by simp
  have c2: "length roi = length (roiBoxes st)" using bl r1 roi by simp
  have c3: "0 < length roi" using roi by simp
  have c4: "count \<le> length roi" using bl r1 roi by simp
  have c5: "rb_num (roi ! 0) = int count" using roi by simp
  have c6: "\<forall>k < count. is_record_of st (fst (survivors (demoClasses st) dets ! k))
              (snd (survivors (demoClasses st) dets ! k)) (roi ! k)"
  proof (intro allI impI)
    fix k assume k: "k < count"
    then have "is_record_of st (fst (survivors (demoClasses st) dets ! k))
              (snd (survivors (demoClasses st) dets ! k)) (roi1 ! k)"
      using bl by simp
    then show "is_record_of st (fst (survivors (demoClasses st) dets ! k))
              (snd (survivors (demoClasses st) dets ! k)) (roi ! k)"
      using r1 roi by (cases k) simp_all
  qed
  from c1 c2 c3 c4 c5 c6 show ?thesis by blast
qed

text \<open>The clipped edges, one at a time.\<close>

lemma clip_edges_max_min:
  "e_xmin (clip_edges e) = max 0 (e_xmin e)"
  "e_xmax (clip_edges e) = min 1 (e_xmax e)"
  "e_ymin (clip_edges e) = max 0 (e_ymin e)"
  "e_ymax (clip_edges e) = min 1 (e_ymax e)"
  by (simp_all add: clip_edges_def max_def min_def)

lemma survives_in_frame:
  assumes "survives d j"
  shows "0 \<le> e_xmin (clip_edges (box_edges (bbox d)))
       \<and> e_xmin (clip_edges (box_edges (bbox d))) < e_xmax (clip_edges (box_edges (bbox d)))
       \<and> e_xmax (clip_edges (box_edges (bbox d))) \<le> 1
       \<and> 0 \<le> e_ymin (clip_edges (box_edges (bbox d)))
       \<and> e_ymin (clip_edges (box_edges (bbox d))) < e_ymax (clip_edges (box_edges (bbox d)))
       \<and> e_ymax (clip_edges (box_edges (bbox d))) \<le> 1"
proof -
  from assms have "0 < BBox_width (clip_edges (box_edges (bbox d)))"
    and "0 < BBox_height (clip_edges (box_edges (bbox d)))"
    by (simp_all add: survives_def)
  then show ?thesis
    unfolding BBox_width_def BBox_height_def clip_edges_max_min by linarith
qed

text \<open>
  The extraction is defined when the frame dimensions fit the depth map and
  \<^verbatim>\<open>roiBoxes_\<close> has room for the surviving detections.
\<close>

lemma class_loop_total:
  assumes "depth_readable st" "count + length (filter (survives d) js) \<le> length roi"
  shows "\<exists>r. class_loop st d (clip_edges (box_edges (bbox d))) js (roi, count) = Some r"
  using assms(2)
proof (induction js arbitrary: roi count)
  case Nil
  then show ?case by simp
next
  case (Cons j js)
  let ?e = "clip_edges (box_edges (bbox d))"
  show ?case
  proof (cases "survives d j")
    case True
    from survives_in_frame [OF True] assms(1)
    obtain zv where z: "getObjDepth st (e_xmin ?e) (e_xmax ?e) (e_ymin ?e) (e_ymax ?e) = Some zv"
      using getObjDepth_total [of "e_xmin ?e" "e_xmax ?e" "e_ymin ?e" "e_ymax ?e" st] by blast
    have lt: "count < length roi" using Cons.prems True by simp
    have s: "class_step st d ?e j (roi, count)
           = Some (roi[count := write_roiBox (roi ! count) ?e zv j (prob d j)], Suc count)"
      using True z lt by (simp add: class_step_def survives_def)
    have "Suc count + length (filter (survives d) js)
        \<le> length (roi[count := write_roiBox (roi ! count) ?e zv j (prob d j)])"
      using Cons.prems True by simp
    from Cons.IH [OF this] show ?thesis by (simp add: s)
  next
    case False
    then have s: "class_step st d ?e j (roi, count) = Some (roi, count)"
      by (auto simp: class_step_def survives_def)
    have "count + length (filter (survives d) js) \<le> length roi"
      using Cons.prems False by simp
    from Cons.IH [OF this] show ?thesis by (simp add: s)
  qed
qed

lemma box_loop_total:
  assumes "depth_readable st"
    "count + length (survivors (demoClasses st) dets) \<le> length roi"
  shows "\<exists>r. box_loop st dets (roi, count) = Some r"
  using assms(2)
proof (induction dets arbitrary: roi count)
  case Nil
  then show ?case by simp
next
  case (Cons d ds)
  let ?js = "filter (survives d) [0..<demoClasses st]"
  have "count + length ?js \<le> length roi"
    using Cons.prems by (simp add: survivors_Cons)
  from class_loop_total [OF assms(1) this] obtain roi1 count1 where
    s: "class_loop st d (clip_edges (box_edges (bbox d))) [0..<demoClasses st] (roi, count)
          = Some (roi1, count1)"
    by fastforce
  from class_loop_Some [OF s] have "length roi1 = length roi" "count1 = count + length ?js"
    by simp_all
  then have "count1 + length (survivors (demoClasses st) ds) \<le> length roi1"
    using Cons.prems by (simp add: survivors_Cons)
  from Cons.IH [OF this] show ?case by (simp add: s)
qed

lemma extract_boxes_total:
  assumes "depth_readable st" "roiBoxes st \<noteq> []"
    "length (survivors (demoClasses st) dets) \<le> length (roiBoxes st)"
  shows "\<exists>roi. extract_boxes st dets = Some (roi, length (survivors (demoClasses st) dets))"
proof -
  from box_loop_total [OF assms(1), of 0 dets "roiBoxes st"] assms(3)
  obtain roi1 count where b: "box_loop st dets (roiBoxes st, 0) = Some (roi1, count)"
    by fastforce
  from box_loop_Some [OF b] have c: "count = length (survivors (demoClasses st) dets)"
    and "length roi1 = length (roiBoxes st)" by simp_all
  then have "roi1 \<noteq> []" using assms(2) by auto
  then obtain roi where "set_num roi1 count = Some roi"
    by (cases roi1) (simp_all add: set_num_def)
  then show ?thesis using b c by (simp add: extract_boxes_def)
qed

text \<open>
  Claim C1, as amended.  After the clipping of a decoded box, \<open>xmin\<close> and \<open>ymin\<close> are
  at least 0 and \<open>xmax\<close> and \<open>ymax\<close> at most 1.  All four edges lie in \<open>[0, 1]\<close>
  with \<open>xmin \<le> xmax\<close> and \<open>ymin \<le> ymax\<close> exactly when the box has a width and a
  height that are not negative and meets the unit frame; this holds of every box of
  which a record is written.  A box is never dropped for reaching out of the frame:
  where the step of the class loop is defined, it writes a record exactly when the
  score is not zero and the clipped width and height exceed a hundredth.
\<close>

theorem clip_edges_bounds:
  "0 \<le> e_xmin (clip_edges (box_edges b)) \<and> e_xmax (clip_edges (box_edges b)) \<le> 1
   \<and> 0 \<le> e_ymin (clip_edges (box_edges b)) \<and> e_ymax (clip_edges (box_edges b)) \<le> 1
   \<and> (in_unit_frame (clip_edges (box_edges b)) \<longleftrightarrow>
        0 \<le> box_w b \<and> 0 \<le> box_h b
        \<and> e_xmin (box_edges b) \<le> 1 \<and> 0 \<le> e_xmax (box_edges b)
        \<and> e_ymin (box_edges b) \<le> 1 \<and> 0 \<le> e_ymax (box_edges b))
   \<and> (survives d j \<longrightarrow> in_unit_frame (clip_edges (box_edges (bbox d))))
   \<and> (class_step st d (clip_edges (box_edges (bbox d))) j (roi, count) = Some (roi', count') \<longrightarrow>
        (count' = Suc count \<longleftrightarrow> survives d j))"
proof (intro conjI impI)
  show "0 \<le> e_xmin (clip_edges (box_edges b))" "e_xmax (clip_edges (box_edges b)) \<le> 1"
    "0 \<le> e_ymin (clip_edges (box_edges b))" "e_ymax (clip_edges (box_edges b)) \<le> 1"
    by (simp_all add: clip_edges_max_min)
  have w: "e_xmin (box_edges b) \<le> e_xmax (box_edges b) \<longleftrightarrow> 0 \<le> box_w b"
    and h: "e_ymin (box_edges b) \<le> e_ymax (box_edges b) \<longleftrightarrow> 0 \<le> box_h b"
    by (simp_all add: box_edges_def)
  show "in_unit_frame (clip_edges (box_edges b)) \<longleftrightarrow>
        0 \<le> box_w b \<and> 0 \<le> box_h b
        \<and> e_xmin (box_edges b) \<le> 1 \<and> 0 \<le> e_xmax (box_edges b)
        \<and> e_ymin (box_edges b) \<le> 1 \<and> 0 \<le> e_ymax (box_edges b)"
    unfolding in_unit_frame_def clip_edges_max_min w [symmetric] h [symmetric]
    by (auto simp: max_def min_def)
next
  assume "survives d j"
  from survives_in_frame [OF this]
  show "in_unit_frame (clip_edges (box_edges (bbox d)))"
    unfolding in_unit_frame_def by linarith
next
  assume "class_step st d (clip_edges (box_edges (bbox d))) j (roi, count) = Some (roi', count')"
  from class_step_cases [OF this] show "count' = Suc count \<longleftrightarrow> survives d j"
    by auto
qed

theorem clip_edges_bounds_witness:
  "survives ex_det_over 0
   \<and> e_xmax (box_edges (bbox ex_det_over)) = 11 / 10
   \<and> clip_edges (box_edges (bbox ex_det_over))
       = \<lparr>e_xmin = 7 / 10, e_xmax = 1, e_ymin = 1 / 4, e_ymax = 3 / 4\<rparr>
   \<and> in_unit_frame (clip_edges (box_edges (bbox ex_det_over)))
   \<and> class_step ex_node ex_det_over (clip_edges (box_edges (bbox ex_det_over))) 0
        (replicate 4 zero_RosBox, 0)
       = Some ((replicate 4 zero_RosBox)
                 [0 := \<lparr>rb_x = 17 / 20, rb_y = 1 / 2, rb_w = 3 / 10, rb_h = 1 / 2,
                         rb_z = Finite 4, rb_num = 0, rb_Class = 0, rb_prob = 9 / 10\<rparr>], 1)"
proof -
  have ce: "clip_edges (box_edges (bbox ex_det_over))
       = \<lparr>e_xmin = 7 / 10, e_xmax = 1, e_ymin = 1 / 4, e_ymax = 3 / 4\<rparr>"
    by (simp add: ex_det_over_def box_edges_def clip_edges_def)
  have gd: "getObjDepth ex_node (7 / 10) 1 (1 / 4) (3 / 4) = Some (Finite 4)"
    by (simp add: getObjDepth_def grid_eq read_depth_def Mat_at_def int_cast_def sample_x_def
        sample_y_def refs_def ex_node_def ex_dmap_def FLT_MIN_def pick_depth_def)
  have pr: "prob ex_det_over 0 = 9 / 10"
    by (simp add: ex_det_over_def ex_prob_def)
  have xm: "e_xmax (box_edges (bbox ex_det_over)) = 11 / 10"
    by (simp add: ex_det_over_def box_edges_def)
  have sv: "survives ex_det_over 0"
    by (simp add: survives_def ce BBox_width_def BBox_height_def pr)
  have cs: "class_step ex_node ex_det_over (clip_edges (box_edges (bbox ex_det_over))) 0
        (replicate 4 zero_RosBox, 0)
       = Some ((replicate 4 zero_RosBox)
                 [0 := \<lparr>rb_x = 17 / 20, rb_y = 1 / 2, rb_w = 3 / 10, rb_h = 1 / 2,
                         rb_z = Finite 4, rb_num = 0, rb_Class = 0, rb_prob = 9 / 10\<rparr>], 1)"
    by (simp add: class_step_def ce gd BBox_width_def BBox_height_def write_roiBox_def
        zero_RosBox_def pr)
  have iu: "in_unit_frame (clip_edges (box_edges (bbox ex_det_over)))"
    using clip_edges_bounds [of "bbox ex_det_over" ex_det_over 0 ex_node
        "replicate 4 zero_RosBox" 0
        "(replicate 4 zero_RosBox)
           [0 := \<lparr>rb_x = 17 / 20, rb_y = 1 / 2, rb_w = 3 / 10, rb_h = 1 / 2,
                   rb_z = Finite 4, rb_num = 0, rb_Class = 0, rb_prob = 9 / 10\<rparr>]" 1] sv
    by blast
  show ?thesis
    by (intro conjI) (rule sv xm ce iu cs)+
qed

text \<open>
  Claim C1 as stated fails on a box that lies beyond the right edge of the frame:
  its clipped \<open>xmin\<close> is 7/4, above 1 and above its clipped \<open>xmax\<close>.
\<close>

theorem clip_edges_beyond_frame_counterexample:
  "e_xmin (clip_edges (box_edges (bbox ex_det_beyond))) = 7 / 4
   \<and> e_xmax (clip_edges (box_edges (bbox ex_det_beyond))) = 1
   \<and> \<not> in_unit_frame (clip_edges (box_edges (bbox ex_det_beyond)))"
  by (simp add: ex_det_beyond_def box_edges_def clip_edges_def in_unit_frame_def)

text \<open>
  Claim C6.  When the extraction of the boxes is defined, its count is the number of
  surviving detections, and the entry \<open>k\<close> below the count holds the record of the
  \<open>k\<close>-th of them: of a decoded box and a class with a score that is not zero, where
  the clipped width and the clipped height both exceed 0.01.  No record is written
  for a class with score zero or for a box whose clipped width or height is at most
  0.01, such as a box of clipped width 0.005 and height 0.2.
\<close>

theorem records_only_for_survivors:
  "(extract_boxes st dets = Some (roi, count) \<longrightarrow>
      count = length (survivors (demoClasses st) dets)
      \<and> (\<forall>k < count.
            fst (survivors (demoClasses st) dets ! k) \<in> set dets
            \<and> snd (survivors (demoClasses st) dets ! k) < demoClasses st
            \<and> prob (fst (survivors (demoClasses st) dets ! k))
                 (snd (survivors (demoClasses st) dets ! k)) \<noteq> 0
            \<and> BBox_width (clip_edges (box_edges (bbox (fst (survivors (demoClasses st) dets ! k)))))
                 > 0.01
            \<and> BBox_height (clip_edges (box_edges (bbox (fst (survivors (demoClasses st) dets ! k)))))
                 > 0.01
            \<and> is_record_of st (fst (survivors (demoClasses st) dets ! k))
                 (snd (survivors (demoClasses st) dets ! k)) (roi ! k)))
   \<and> (prob d j = 0 \<or> BBox_width e \<le> 0.01 \<or> BBox_height e \<le> 0.01 \<longrightarrow>
        class_step st d e j rc = Some rc)
   \<and> (BBox_width e = 0.005 \<and> BBox_height e = 0.2 \<longrightarrow> class_step st d e j rc = Some rc)"
proof (intro conjI impI)
  assume a: "extract_boxes st dets = Some (roi, count)"
  note eb = extract_boxes_Some [OF a]
  show "count = length (survivors (demoClasses st) dets)" using eb by simp
  show "\<forall>k < count.
            fst (survivors (demoClasses st) dets ! k) \<in> set dets
            \<and> snd (survivors (demoClasses st) dets ! k) < demoClasses st
            \<and> prob (fst (survivors (demoClasses st) dets ! k))
                 (snd (survivors (demoClasses st) dets ! k)) \<noteq> 0
            \<and> BBox_width (clip_edges (box_edges (bbox (fst (survivors (demoClasses st) dets ! k)))))
                 > 0.01
            \<and> BBox_height (clip_edges (box_edges (bbox (fst (survivors (demoClasses st) dets ! k)))))
                 > 0.01
            \<and> is_record_of st (fst (survivors (demoClasses st) dets ! k))
                 (snd (survivors (demoClasses st) dets ! k)) (roi ! k)"
  proof (intro allI impI)
    fix k assume k: "k < count"
    then have "k < length (survivors (demoClasses st) dets)" using eb by simp
    from survivors_survive [OF this] k eb
    show "fst (survivors (demoClasses st) dets ! k) \<in> set dets
            \<and> snd (survivors (demoClasses st) dets ! k) < demoClasses st
            \<and> prob (fst (survivors (demoClasses st) dets ! k))
                 (snd (survivors (demoClasses st) dets ! k)) \<noteq> 0
            \<and> BBox_width (clip_edges (box_edges (bbox (fst (survivors (demoClasses st) dets ! k)))))
                 > 0.01
            \<and> BBox_height (clip_edges (box_edges (bbox (fst (survivors (demoClasses st) dets ! k)))))
                 > 0.01
            \<and> is_record_of st (fst (survivors (demoClasses st) dets ! k))
                 (snd (survivors (demoClasses st) dets ! k)) (roi ! k)"
      by (simp add: survives_def)
  qed
next
  assume "prob d j = 0 \<or> BBox_width e \<le> 0.01 \<or> BBox_height e \<le> 0.01"
  then show "class_step st d e j rc = Some rc"
    by (cases rc) (auto simp: class_step_def)
next
  assume "BBox_width e = 0.005 \<and> BBox_height e = 0.2"
  then show "class_step st d e j rc = Some rc"
    by (cases rc) (simp add: class_step_def)
qed

theorem records_only_for_survivors_witness:
  "extract_boxes ex_node [ex_det_thin, ex_det_over, ex_det_beyond]
     = Some ([\<lparr>rb_x = 17 / 20, rb_y = 1 / 2, rb_w = 3 / 10, rb_h = 1 / 2,
                rb_z = Finite 4, rb_num = 1, rb_Class = 0, rb_prob = 9 / 10\<rparr>,
              zero_RosBox, zero_RosBox, zero_RosBox], 1)
   \<and> survivors (demoClasses ex_node) [ex_det_thin, ex_det_over, ex_det_beyond]
       = [(ex_det_over, 0)]
   \<and> is_record_of ex_node ex_det_over 0
        \<lparr>rb_x = 17 / 20, rb_y = 1 / 2, rb_w = 3 / 10, rb_h = 1 / 2,
         rb_z = Finite 4, rb_num = 1, rb_Class = 0, rb_prob = 9 / 10\<rparr>
   \<and> prob ex_det_thin 0 = 9 / 10
   \<and> BBox_width (clip_edges (box_edges (bbox ex_det_thin))) = 0.005
   \<and> BBox_height (clip_edges (box_edges (bbox ex_det_thin))) = 0.2
   \<and> class_step ex_node ex_det_thin (clip_edges (box_edges (bbox ex_det_thin))) 0
        (roiBoxes ex_node, 0) = Some (roiBoxes ex_node, 0)"
proof -
  let ?rec = "\<lparr>rb_x = 17 / 20, rb_y = 1 / 2, rb_w = 3 / 10, rb_h = 1 / 2,
                rb_z = Finite 4, rb_num = 1, rb_Class = 0, rb_prob = 9 / 10 :: real\<rparr>"
  let ?roi = "[?rec, zero_RosBox, zero_RosBox, zero_RosBox]"
  let ?dets = "[ex_det_thin, ex_det_over, ex_det_beyond]"
  have gd: "getObjDepth ex_node (7 / 10) 1 (1 / 4) (3 / 4) = Some (Finite 4)"
    by (simp add: getObjDepth_def grid_eq read_depth_def Mat_at_def int_cast_def sample_x_def
        sample_y_def refs_def ex_node_def ex_dmap_def FLT_MIN_def pick_depth_def)
  have nc: "demoClasses ex_node = 2" and rb: "roiBoxes ex_node = [zero_RosBox, zero_RosBox, zero_RosBox, zero_RosBox]"
    by (simp_all add: ex_node_def)
  have upt2: "[0..<2] = [0, 1]" by (simp add: upt_rec)
  have ct: "clip_edges (box_edges (bbox ex_det_thin))
       = \<lparr>e_xmin = 199 / 400, e_xmax = 201 / 400, e_ymin = 2 / 5, e_ymax = 3 / 5\<rparr>"
    by (simp add: ex_det_thin_def box_edges_def clip_edges_def)
  have co: "clip_edges (box_edges (bbox ex_det_over))
       = \<lparr>e_xmin = 7 / 10, e_xmax = 1, e_ymin = 1 / 4, e_ymax = 3 / 4\<rparr>"
    by (simp add: ex_det_over_def box_edges_def clip_edges_def)
  have cb: "clip_edges (box_edges (bbox ex_det_beyond))
       = \<lparr>e_xmin = 7 / 4, e_xmax = 1, e_ymin = 1 / 4, e_ymax = 3 / 4\<rparr>"
    by (simp add: ex_det_beyond_def box_edges_def clip_edges_def)
  have pr: "prob ex_det_thin = ex_prob" "prob ex_det_over = ex_prob" "prob ex_det_beyond = ex_prob"
    by (simp_all add: ex_det_thin_def ex_det_over_def ex_det_beyond_def)
  have w1: "extract_boxes ex_node ?dets = Some (?roi, 1)"
    by (simp add: extract_boxes_def nc rb upt2 class_step_def ct co cb pr ex_prob_def gd
        BBox_width_def BBox_height_def write_roiBox_def zero_RosBox_def set_num_def)
  have w2: "survivors (demoClasses ex_node) ?dets = [(ex_det_over, 0)]"
    by (simp add: survivors_def nc upt2 survives_def ct co cb pr ex_prob_def
        BBox_width_def BBox_height_def)
  have w3: "is_record_of ex_node ex_det_over 0 ?rec"
    using records_only_for_survivors [of ex_node ?dets ?roi 1] w1 w2 by simp
  have w4: "prob ex_det_thin 0 = 9 / 10" by (simp add: pr ex_prob_def)
  have w5: "BBox_width (clip_edges (box_edges (bbox ex_det_thin))) = 0.005"
    and w6: "BBox_height (clip_edges (box_edges (bbox ex_det_thin))) = 0.2"
    by (simp_all add: ct BBox_width_def BBox_height_def)
  have w7: "class_step ex_node ex_det_thin (clip_edges (box_edges (bbox ex_det_thin))) 0
        (roiBoxes ex_node, 0) = Some (roiBoxes ex_node, 0)"
    using records_only_for_survivors [of ex_node ?dets ?roi 1 ex_det_thin 0
        "clip_edges (box_edges (bbox ex_det_thin))" "(roiBoxes ex_node, 0)"] w5 w6
    by blast
  show ?thesis
    by (intro conjI) (rule w1 w2 w3 w4 w5 w6 w7)+
qed

section \<open>Properties of the publish stage\<close>

lemma int8_cast_small: "- 128 \<le> k \<Longrightarrow> k < 128 \<Longrightarrow> int8_cast k = k"
  by (simp add: int8_cast_def)

text \<open>
  Each call of \<^verbatim>\<open>publishInThread\<close> publishes one count: the number in
  \<^verbatim>\<open>roiBoxes_[0].num\<close> if it is between 1 and 100, and 0 otherwise.
\<close>

lemma publishInThread_count:
  assumes "publishInThread st = Some st'"
  shows "objectPublished st' = objectPublished st
           @ [if 0 < rb_num (roiBoxes st ! 0) \<and> rb_num (roiBoxes st ! 0) \<le> 100
              then rb_num (roiBoxes st ! 0) else 0]"
proof (cases "0 < rb_num (roiBoxes st ! 0) \<and> rb_num (roiBoxes st ! 0) \<le> 100")
  case True
  then have "int8_cast (rb_num (roiBoxes st ! 0)) = rb_num (roiBoxes st ! 0)"
    by (intro int8_cast_small) simp_all
  with assms True show ?thesis
    by (auto simp: publishInThread_def publish_detections_def clear_results_def
        complete_request_def Let_def split: if_splits option.splits prod.splits)
next
  case False
  with assms show ?thesis
    by (auto simp: publishInThread_def clear_results_def complete_request_def Let_def
        int8_cast_def split: if_splits option.splits)
qed

text \<open>
  The publish stage is defined when the vectors of the node have their sizes, the ring
  index is in range, and a count between 1 and 100 does not exceed the number of
  entries of \<^verbatim>\<open>roiBoxes_\<close>.
\<close>

lemma publishInThread_total:
  assumes "roiBoxes st \<noteq> []" "buffIndex st \<in> {0, 1, 2}"
    and "length (headerBuff st) = 3" "length (buffId st) = 3"
    and "length (rosBoxes st) = numClasses st" "length (rosBoxCounter st) = numClasses st"
    and "length (classLabels st) = numClasses st"
    and "list_all2 (\<lambda>c bs. c = length bs) (rosBoxCounter st) (rosBoxes st)"
    and "rb_num (roiBoxes st ! 0) \<le> 100 \<longrightarrow> nat (rb_num (roiBoxes st ! 0)) \<le> length (roiBoxes st)"
  shows "\<exists>st'. publishInThread st = Some st'"
proof -
  from assms(2) have "0 \<le> display_slot (buffIndex st) \<and> display_slot (buffIndex st) < 3"
    by (auto simp: display_slot_def signed_modulo_int_def)
  with assms show ?thesis
    by (auto simp: publishInThread_def publish_detections_def Let_def split: prod.splits)
qed

section \<open>What the stages leave alone\<close>

lemma fetchInThread_keeps:
  assumes "fetchInThread dk st = Some st'"
  shows "objectPublished st' = objectPublished st" "demoClasses st' = demoClasses st"
    "roiBoxes st' = roiBoxes st" "isNodeRunning st' = isNodeRunning st"
    "demoDone st' = demoDone st" "sem_new_image st' = sem_new_image st"
    "buffIndex st' = buffIndex st" "actionId st' = actionId st"
    "checkForObjectsActionServer st' = checkForObjectsActionServer st"
    "ros_ok st' = ros_ok st" "actionResults st' = actionResults st"
    "fetch_thread_joinable st' = fetch_thread_joinable st"
    "detect_thread_joinable st' = detect_thread_joinable st"
  using assms
  by (auto simp: fetchInThread_def getIplImageWithHeader_def Let_def split: if_splits)

lemma detect_boxes_keeps:
  assumes "detect_boxes dk st = Some (st', dets)"
  shows "objectPublished st' = objectPublished st" "demoClasses st' = demoClasses st"
    "roiBoxes st' = roiBoxes st" "isNodeRunning st' = isNodeRunning st"
    "demoDone st' = demoDone st" "sem_new_image st' = sem_new_image st"
    "buffIndex st' = buffIndex st" "actionId st' = actionId st" "buffId st' = buffId st"
    "headerBuff st' = headerBuff st"
    "checkForObjectsActionServer st' = checkForObjectsActionServer st"
    "ros_ok st' = ros_ok st" "actionResults st' = actionResults st"
    "fetch_thread_joinable st' = fetch_thread_joinable st"
    "detect_thread_joinable st' = detect_thread_joinable st"
    "demoFrame st' = demoFrame st"
proof -
  from assms obtain nw1 st1 st2 nw2 dets0 b where
    r: "rememberNetwork nw1 st = Some st1"
    and a: "avgPredictions dk nw1 st1 = Some (st2, nw2, dets0)"
    and e: "st' = st2\<lparr>net := nw2, buff := b\<rparr>"
    by (auto simp: detect_boxes_def Let_def split: if_splits option.splits)
  from r obtain p where st1: "st1 = st\<lparr>predictions := p\<rparr>"
    by (auto simp: rememberNetwork_def split: if_splits option.splits)
  from a obtain av where st2: "st2 = st1\<lparr>avg := av\<rparr>"
    by (auto simp: avgPredictions_def Let_def split: option.splits list.splits)
  show "objectPublished st' = objectPublished st" "demoClasses st' = demoClasses st"
    "roiBoxes st' = roiBoxes st" "isNodeRunning st' = isNodeRunning st"
    "demoDone st' = demoDone st" "sem_new_image st' = sem_new_image st"
    "buffIndex st' = buffIndex st" "actionId st' = actionId st" "buffId st' = buffId st"
    "headerBuff st' = headerBuff st"
    "checkForObjectsActionServer st' = checkForObjectsActionServer st"
    "ros_ok st' = ros_ok st" "actionResults st' = actionResults st"
    "fetch_thread_joinable st' = fetch_thread_joinable st"
    "detect_thread_joinable st' = detect_thread_joinable st"
    "demoFrame st' = demoFrame st"
    by (simp_all add: e st2 st1)
qed

lemma detectInThread_keeps:
  assumes "detectInThread dk st = Some st'"
  shows "objectPublished st' = objectPublished st" "demoClasses st' = demoClasses st"
    "isNodeRunning st' = isNodeRunning st"
    "demoDone st' = demoDone st" "sem_new_image st' = sem_new_image st"
    "buffIndex st' = buffIndex st" "actionId st' = actionId st" "buffId st' = buffId st"
    "headerBuff st' = headerBuff st"
    "checkForObjectsActionServer st' = checkForObjectsActionServer st"
    "ros_ok st' = ros_ok st" "actionResults st' = actionResults st"
    "fetch_thread_joinable st' = fetch_thread_joinable st"
    "detect_thread_joinable st' = detect_thread_joinable st"
proof -
  from assms obtain st3 dets roi where
    d: "detect_boxes dk st = Some (st3, dets)"
    and e: "st' = st3\<lparr>roiBoxes := roi, demoIndex := (demoIndex st3 + 1) mod demoFrame st3\<rparr>"
    by (auto simp: detectInThread_def split: if_splits option.splits)
  note k = detect_boxes_keeps [OF d]
  show "objectPublished st' = objectPublished st" "demoClasses st' = demoClasses st"
    "isNodeRunning st' = isNodeRunning st"
    "demoDone st' = demoDone st" "sem_new_image st' = sem_new_image st"
    "buffIndex st' = buffIndex st" "actionId st' = actionId st" "buffId st' = buffId st"
    "headerBuff st' = headerBuff st"
    "checkForObjectsActionServer st' = checkForObjectsActionServer st"
    "ros_ok st' = ros_ok st" "actionResults st' = actionResults st"
    "fetch_thread_joinable st' = fetch_thread_joinable st"
    "detect_thread_joinable st' = detect_thread_joinable st"
    by (simp_all add: e k)
qed

lemma displayInThread_keeps:
  assumes "displayInThread dk key st = Some st'"
  shows "objectPublished st' = objectPublished st" "demoClasses st' = demoClasses st"
    "roiBoxes st' = roiBoxes st" "isNodeRunning st' = isNodeRunning st"
    "sem_new_image st' = sem_new_image st"
    "buffIndex st' = buffIndex st" "actionId st' = actionId st" "buffId st' = buffId st"
    "headerBuff st' = headerBuff st"
    "checkForObjectsActionServer st' = checkForObjectsActionServer st"
    "ros_ok st' = ros_ok st" "actionResults st' = actionResults st"
    "fetch_thread_joinable st' = fetch_thread_joinable st"
    "detect_thread_joinable st' = detect_thread_joinable st"
  using assms
  by (auto simp: displayInThread_def Let_def split: if_splits)

lemma publishInThread_keeps:
  assumes "publishInThread st = Some st'"
  shows "isNodeRunning st' = isNodeRunning st" "demoDone st' = demoDone st"
    "sem_new_image st' = sem_new_image st" "buffIndex st' = buffIndex st"
    "actionId st' = actionId st" "buffId st' = buffId st" "ros_ok st' = ros_ok st"
    "fetch_thread_joinable st' = fetch_thread_joinable st"
    "detect_thread_joinable st' = detect_thread_joinable st"
proof -
  from assms obtain st1 where e: "st' = clear_results (complete_request st1)"
    and s: "publish_detections (rb_num (roiBoxes st ! 0)) st = Some st1
            \<or> st1 = st\<lparr>objectPublished := objectPublished st @ [int8_cast 0]\<rparr>"
    by (auto simp: publishInThread_def Let_def split: if_splits option.splits)
  from s have "isNodeRunning st1 = isNodeRunning st \<and> demoDone st1 = demoDone st
      \<and> sem_new_image st1 = sem_new_image st \<and> buffIndex st1 = buffIndex st
      \<and> actionId st1 = actionId st \<and> buffId st1 = buffId st \<and> ros_ok st1 = ros_ok st
      \<and> fetch_thread_joinable st1 = fetch_thread_joinable st
      \<and> detect_thread_joinable st1 = detect_thread_joinable st"
    by (auto simp: publish_detections_def Let_def split: if_splits prod.splits)
  then show "isNodeRunning st' = isNodeRunning st" "demoDone st' = demoDone st"
    "sem_new_image st' = sem_new_image st" "buffIndex st' = buffIndex st"
    "actionId st' = actionId st" "buffId st' = buffId st" "ros_ok st' = ros_ok st"
    "fetch_thread_joinable st' = fetch_thread_joinable st"
    "detect_thread_joinable st' = detect_thread_joinable st"
    by (simp_all add: e clear_results_def complete_request_def)
qed

section \<open>The published count\<close>

lemma survivors_replicate_length:
  "length (survivors ncls (replicate k d)) = k * length (filter (survives d) [0..<ncls])"
  by (induction k) (simp_all add: survivors_Cons, simp add: survivors_def)

lemma capped_count:
  "(if 0 < int n \<and> int n \<le> 100 then int n else 0) = (if n \<le> 100 then int n else 0)"
  by simp

text \<open>
  Claim C7 as stated fails when more than 100 detections survive: of the hundred and
  one boxes of the crowd each has one surviving class, the extraction counts 101,
  and the count published is 0.
\<close>

theorem published_count_crowd_counterexample:
  "length (survivors (demoClasses ex_crowd_node) ex_crowd) = 101
   \<and> extract_then_publish ex_crowd_node ex_crowd = Some (101, [0])"
proof -
  have co: "clip_edges (box_edges (bbox ex_det_over))
       = \<lparr>e_xmin = 7 / 10, e_xmax = 1, e_ymin = 1 / 4, e_ymax = 3 / 4\<rparr>"
    by (simp add: ex_det_over_def box_edges_def clip_edges_def)
  have pr: "prob ex_det_over = ex_prob" by (simp add: ex_det_over_def)
  have "filter (survives ex_det_over) [0..<2] = [0]"
    by (simp add: upt_rec survives_def co pr ex_prob_def BBox_width_def BBox_height_def)
  then have n: "length (survivors (demoClasses ex_crowd_node) ex_crowd) = 101"
    by (simp add: ex_crowd_def ex_crowd_node_def ex_node_def survivors_replicate_length)
  have dr: "depth_readable ex_crowd_node"
    by (simp add: depth_readable_def ex_crowd_node_def ex_node_def ex_dmap_def)
  have ne: "roiBoxes ex_crowd_node \<noteq> []" and len: "length (roiBoxes ex_crowd_node) = 200"
    by (simp_all add: ex_crowd_node_def)
  from extract_boxes_total [OF dr ne, of ex_crowd] n len
  obtain roi where eb: "extract_boxes ex_crowd_node ex_crowd = Some (roi, 101)"
    by auto
  from extract_boxes_Some [OF eb] have num: "rb_num (roi ! 0) = 101" and ro: "roi \<noteq> []"
    by auto
  have "\<exists>stp. publishInThread (ex_crowd_node\<lparr>roiBoxes := roi\<rparr>) = Some stp"
    by (rule publishInThread_total)
      (simp_all add: ro num ex_crowd_node_def ex_node_def)
  then obtain stp where p: "publishInThread (ex_crowd_node\<lparr>roiBoxes := roi\<rparr>) = Some stp" ..
  from publishInThread_count [OF p]
  have "objectPublished stp = [0]"
    by (simp add: num ex_crowd_node_def ex_node_def)
  then have "extract_then_publish ex_crowd_node ex_crowd = Some (101, [0])"
    by (simp add: extract_then_publish_def eb p)
  with n show ?thesis by simp
qed

section \<open>The example iteration\<close>

text \<open>
  The four stages on the example node, evaluated: the fetch stage rewrites slot 1 with
  what it held, the detect stage stores the outputs of the network and their mean
  with a row of zeros and extracts one record, the display stage sees no key, and
  the publish stage publishes the count 1 and one box.
\<close>

lemma ex_fetch:
  "fetchInThread ex_darknet (ex_node\<lparr>buffIndex := 1, fetch_thread_joinable := True,
       detect_thread_joinable := True\<rparr>)
   = Some (ex_node\<lparr>buffIndex := 1, fetch_thread_joinable := True,
       detect_thread_joinable := True\<rparr>)"
  by (simp add: fetchInThread_def fetch_slot_def getIplImageWithHeader_def ex_node_def
      ex_darknet_def ex_image_def Let_def)

lemma ex_extract:
  assumes "roiBoxes st = roiBoxes ex_node" "demoClasses st = 2" "camDmapCopy st = ex_dmap"
    "frameWidth st = 4" "frameHeight st = 4"
  shows "extract_boxes st [ex_det_thin, ex_det_over, ex_det_beyond]
       = Some ([ex_record, zero_RosBox, zero_RosBox, zero_RosBox], 1)"
proof -
  have gd: "getObjDepth st (7 / 10) 1 (1 / 4) (3 / 4) = Some (Finite 4)"
    by (simp add: getObjDepth_def grid_eq read_depth_def Mat_at_def int_cast_def sample_x_def
        sample_y_def refs_def assms ex_dmap_def FLT_MIN_def pick_depth_def)
  have rb: "roiBoxes st = [zero_RosBox, zero_RosBox, zero_RosBox, zero_RosBox]"
    by (simp add: assms ex_node_def)
  have upt2: "[0..<2] = [0, 1]" by (simp add: upt_rec)
  have ct: "clip_edges (box_edges (bbox ex_det_thin))
       = \<lparr>e_xmin = 199 / 400, e_xmax = 201 / 400, e_ymin = 2 / 5, e_ymax = 3 / 5\<rparr>"
    by (simp add: ex_det_thin_def box_edges_def clip_edges_def)
  have co: "clip_edges (box_edges (bbox ex_det_over))
       = \<lparr>e_xmin = 7 / 10, e_xmax = 1, e_ymin = 1 / 4, e_ymax = 3 / 4\<rparr>"
    by (simp add: ex_det_over_def box_edges_def clip_edges_def)
  have cb: "clip_edges (box_edges (bbox ex_det_beyond))
       = \<lparr>e_xmin = 7 / 4, e_xmax = 1, e_ymin = 1 / 4, e_ymax = 3 / 4\<rparr>"
    by (simp add: ex_det_beyond_def box_edges_def clip_edges_def)
  have pr: "prob ex_det_thin = ex_prob" "prob ex_det_over = ex_prob" "prob ex_det_beyond = ex_prob"
    by (simp_all add: ex_det_thin_def ex_det_over_def ex_det_beyond_def)
  show ?thesis
    by (simp add: extract_boxes_def assms(2) rb upt2 class_step_def ct co cb pr ex_prob_def gd
        BBox_width_def BBox_height_def write_roiBox_def zero_RosBox_def set_num_def
        ex_record_def)
qed

lemma ex_detect_boxes:
  "detect_boxes ex_darknet (ex_node\<lparr>buffIndex := 1, fetch_thread_joinable := True,
       detect_thread_joinable := True\<rparr>)
   = Some (ex_node\<lparr>buffIndex := 1, fetch_thread_joinable := True,
             detect_thread_joinable := True,
             predictions := [[1, 2, 3, 4], [0, 0, 0, 0]], avg := [1 / 2, 1, 3 / 2, 2],
             net := net ex_node_after\<rparr>,
           [ex_det_thin, ex_det_over, ex_det_beyond])"
proof -
  have r4: "replicate 4 (0::real) = [0, 0, 0, 0]"
    by (simp add: eval_nat_numeral)
  show ?thesis
    by (simp add: r4 detect_boxes_def detect_slot_def signed_modulo_int_def ex_node_def
        ex_net_def ex_darknet_def rememberNetwork_def is_detection_layer_def memcpy_def
        avgPredictions_def fill_cpu_def axpy_cpu_def upt_rec writeback_loop.simps ex_image_def
        nms_def ex_node_after_def Let_def)
qed

lemma ex_detect:
  "detectInThread ex_darknet (ex_node\<lparr>buffIndex := 1, fetch_thread_joinable := True,
       detect_thread_joinable := True\<rparr>)
   = Some (ex_node_after\<lparr>fetch_thread_joinable := True, detect_thread_joinable := True,
        boundingBoxesResults := boundingBoxesResults ex_node, objectPublished := [],
        boundingBoxesPublished := []\<rparr>)"
proof -
  let ?sb = "ex_node\<lparr>buffIndex := 1, fetch_thread_joinable := True,
       detect_thread_joinable := True,
       predictions := [[1, 2, 3, 4], [0, 0, 0, 0]], avg := [1 / 2, 1, 3 / 2, 2],
       net := net ex_node_after\<rparr>"
  have eb: "extract_boxes ?sb [ex_det_thin, ex_det_over, ex_det_beyond]
       = Some ([ex_record, zero_RosBox, zero_RosBox, zero_RosBox], 1)"
    by (rule ex_extract) (simp_all add: ex_node_def)
  show ?thesis
    by (simp add: detectInThread_def ex_detect_boxes eb) (simp add: ex_node_after_def ex_node_def)
qed

lemma ex_display:
  "displayInThread ex_darknet (- 1)
     (ex_node_after\<lparr>fetch_thread_joinable := True, detect_thread_joinable := True,
        boundingBoxesResults := boundingBoxesResults ex_node, objectPublished := [],
        boundingBoxesPublished := []\<rparr>)
   = Some (ex_node_after\<lparr>fetch_thread_joinable := True, detect_thread_joinable := True,
        boundingBoxesResults := boundingBoxesResults ex_node, objectPublished := [],
        boundingBoxesPublished := []\<rparr>)"
  by (simp add: displayInThread_def display_slot_def signed_modulo_int_def ex_node_after_def
      ex_node_def ex_darknet_def ex_image_def Let_def)

lemma ex_publish:
  "publishInThread
     (ex_node_after\<lparr>fetch_thread_joinable := True, detect_thread_joinable := True,
        boundingBoxesResults := boundingBoxesResults ex_node, objectPublished := [],
        boundingBoxesPublished := []\<rparr>)
   = Some (ex_node_after\<lparr>fetch_thread_joinable := True, detect_thread_joinable := True\<rparr>)"
  by (simp add: publishInThread_def display_slot_def signed_modulo_int_def ex_node_after_def
      ex_node_def Let_def publish_detections_def ex_record_def zero_RosBox_def upt_rec
      class_BoundingBoxes_def make_BoundingBox_def int_cast_def int8_cast_def
      complete_request_def isCheckingForObjects_def clear_results_def ex_boxes_msg_def
      ex_header_def eval_nat_numeral)

section \<open>Properties of the temporal averager\<close>

lemma sizeNetwork_loop_add: "sizeNetwork_loop ls c = c + sizeNetwork_loop ls 0"
proof (induction ls arbitrary: c)
  case Nil
  then show ?case by simp
next
  case (Cons l ls)
  show ?case
    using Cons.IH [of "c + outputs l"] Cons.IH [of "outputs l"] Cons.IH [of c]
    by simp
qed

lemma sizeNetwork_loop_concat:
  assumes "list_all (\<lambda>l. is_detection_layer l \<longrightarrow> length (l_output l) = outputs l) ls"
  shows "sizeNetwork_loop ls 0 = length (concat (map l_output (filter is_detection_layer ls)))"
  using assms
proof (induction ls)
  case Nil
  then show ?case by simp
next
  case (Cons l ls)
  then show ?case
    using sizeNetwork_loop_add [of ls "outputs l"] by simp
qed

text \<open>
  \<^verbatim>\<open>rememberNetwork\<close> puts the raw output vector into the row, from \<open>c\<close> on.
\<close>

lemma rememberNetwork_loop_concat:
  assumes "list_all (\<lambda>l. is_detection_layer l \<longrightarrow> length (l_output l) = outputs l) ls"
    and "c + sizeNetwork_loop ls 0 \<le> length row"
  shows "rememberNetwork_loop ls c row
       = Some (take c row @ concat (map l_output (filter is_detection_layer ls))
               @ drop (c + sizeNetwork_loop ls 0) row)"
  using assms
proof (induction ls arbitrary: c row)
  case Nil
  then show ?case by simp
next
  case (Cons l ls)
  show ?case
  proof (cases "is_detection_layer l")
    case False
    then show ?thesis using Cons by simp
  next
    case True
    let ?n = "outputs l"
    let ?s = "sizeNetwork_loop ls 0"
    let ?pre = "take c row @ l_output l"
    let ?row' = "?pre @ drop (c + ?n) row"
    let ?cat = "concat (map l_output (filter is_detection_layer ls))"
    have len: "length (l_output l) = ?n" using Cons.prems(1) True by simp
    have sz: "sizeNetwork_loop (l # ls) 0 = ?n + ?s"
      using True sizeNetwork_loop_add [of ls ?n] by simp
    have le: "c + ?n \<le> length row" using Cons.prems(2) sz by simp
    have lp: "length ?pre = c + ?n" using le len by simp
    have m: "memcpy row c (l_output l) ?n = Some ?row'"
      using le len by (simp add: memcpy_def)
    have l': "length ?row' = length row" using le lp by simp
    have wf: "list_all (\<lambda>l. is_detection_layer l \<longrightarrow> length (l_output l) = outputs l) ls"
      using Cons.prems(1) by simp
    have "(c + ?n) + ?s \<le> length ?row'"
      using Cons.prems(2) sz l' by simp
    from Cons.IH [OF wf this]
    have ih: "rememberNetwork_loop ls (c + ?n) ?row'
        = Some (take (c + ?n) ?row' @ ?cat @ drop (c + ?n + ?s) ?row')" .
    have t: "take (c + ?n) ?row' = ?pre"
      using lp by (metis append_eq_conv_conj)
    have "drop (c + ?n + ?s) ?row' = drop ?s (drop (c + ?n) row)"
      using lp by (metis append_eq_conv_conj drop_drop add.commute)
    then have d: "drop (c + ?n + ?s) ?row' = drop (c + sizeNetwork_loop (l # ls) 0) row"
      by (simp only: drop_drop sz ac_simps)
    have "rememberNetwork_loop (l # ls) c row = rememberNetwork_loop ls (c + ?n) ?row'"
      using True m by simp
    also have "\<dots> = Some (?pre @ ?cat @ drop (c + sizeNetwork_loop (l # ls) 0) row)"
      by (simp only: ih t d)
    also have "?pre @ ?cat @ drop (c + sizeNetwork_loop (l # ls) 0) row
        = take c row @ concat (map l_output (filter is_detection_layer (l # ls)))
          @ drop (c + sizeNetwork_loop (l # ls) 0) row"
      using True by simp
    finally show ?thesis .
  qed
qed

text \<open>
  The second loop of \<^verbatim>\<open>avgPredictions\<close> cuts the mean, from \<open>c\<close> on, into the
  outputs of the detection layers and leaves the other layers alone.
\<close>

lemma writeback_loop_concat:
  assumes "list_all (\<lambda>l. is_detection_layer l \<longrightarrow> length (l_output l) = outputs l) ls"
    and "c + sizeNetwork_loop ls 0 \<le> length av"
  shows "\<exists>ls'. writeback_loop ls c av = Some ls'
       \<and> concat (map l_output (filter is_detection_layer ls'))
           = take (sizeNetwork_loop ls 0) (drop c av)
       \<and> map ltype ls' = map ltype ls \<and> map outputs ls' = map outputs ls
       \<and> list_all (\<lambda>l. is_detection_layer l \<longrightarrow> length (l_output l) = outputs l) ls'"
  using assms
proof (induction ls arbitrary: c)
  case Nil
  then show ?case by simp
next
  case (Cons l ls)
  have wf: "list_all (\<lambda>l. is_detection_layer l \<longrightarrow> length (l_output l) = outputs l) ls"
    using Cons.prems(1) by simp
  show ?case
  proof (cases "is_detection_layer l")
    case False
    have "c + sizeNetwork_loop ls 0 \<le> length av" using Cons.prems(2) False by simp
    from Cons.IH [OF wf this] obtain ls' where
      "writeback_loop ls c av = Some ls'"
      "concat (map l_output (filter is_detection_layer ls'))
           = take (sizeNetwork_loop ls 0) (drop c av)"
      "map ltype ls' = map ltype ls" "map outputs ls' = map outputs ls"
      "list_all (\<lambda>l. is_detection_layer l \<longrightarrow> length (l_output l) = outputs l) ls'"
      by blast
    then show ?thesis using False by simp
  next
    case True
    let ?n = "outputs l"
    let ?s = "sizeNetwork_loop ls 0"
    let ?out = "take ?n (drop c av)"
    let ?l' = "l\<lparr>l_output := ?out\<rparr>"
    have len: "length (l_output l) = ?n" using Cons.prems(1) True by simp
    have sz: "sizeNetwork_loop (l # ls) 0 = ?n + ?s"
      using True sizeNetwork_loop_add [of ls ?n] by simp
    have le: "c + ?n + ?s \<le> length av" using Cons.prems(2) sz by simp
    have m: "memcpy (l_output l) 0 (drop c av) ?n = Some ?out"
      using le len by (simp add: memcpy_def)
    from Cons.IH [OF wf le] obtain ls' where
      w: "writeback_loop ls (c + ?n) av = Some ls'"
      and cc: "concat (map l_output (filter is_detection_layer ls')) = take ?s (drop (c + ?n) av)"
      and ty: "map ltype ls' = map ltype ls" and ou: "map outputs ls' = map outputs ls"
      and wf': "list_all (\<lambda>l. is_detection_layer l \<longrightarrow> length (l_output l) = outputs l) ls'"
      by blast
    have d': "is_detection_layer ?l'" using True by (simp add: is_detection_layer_def)
    have r: "writeback_loop (l # ls) c av = Some (?l' # ls')"
      using True m w by simp
    have "?out @ take ?s (drop (c + ?n) av) = take (?n + ?s) (drop c av)"
      by (simp add: take_add add.commute)
    then have c1: "concat (map l_output (filter is_detection_layer (?l' # ls')))
        = take (sizeNetwork_loop (l # ls) 0) (drop c av)"
      using d' cc sz by simp
    have lo: "length ?out = ?n" using le by simp
    have c2: "map ltype (?l' # ls') = map ltype (l # ls)"
      and c3: "map outputs (?l' # ls') = map outputs (l # ls)"
      using ty ou by simp_all
    have c4: "list_all (\<lambda>l. is_detection_layer l \<longrightarrow> length (l_output l) = outputs l) (?l' # ls')"
      using wf' lo by simp
    from r c1 c2 c3 c4 show ?thesis by blast
  qed
qed

text \<open>The first loop adds to each entry of the mean the scaled entries of the rows.\<close>

lemma axpy_cpu_full:
  assumes "length X = N" "length Y = N"
  shows "axpy_cpu N ALPHA X Y = Some (map2 (\<lambda>xv yv. yv + ALPHA * xv) X Y)"
  using assms by (simp add: axpy_cpu_def)

lemma avg_loop_sum:
  assumes "\<forall>j \<in> set js. j < length preds \<and> length (preds ! j) = N" "length av = N"
  shows "\<exists>av'. avg_loop N ALPHA preds js av = Some av' \<and> length av' = N
       \<and> (\<forall>k < N. av' ! k = av ! k + ALPHA * sum_list (map (\<lambda>j. preds ! j ! k) js))"
  using assms
proof (induction js arbitrary: av)
  case Nil
  then show ?case by simp
next
  case (Cons j js)
  let ?av1 = "map2 (\<lambda>xv yv. yv + ALPHA * xv) (preds ! j) av"
  have j: "j < length preds" "length (preds ! j) = N" using Cons.prems(1) by simp_all
  have a: "axpy_cpu N ALPHA (preds ! j) av = Some ?av1"
    using j Cons.prems(2) by (rule_tac axpy_cpu_full)
  have l1: "length ?av1 = N" using j Cons.prems(2) by simp
  have "\<forall>j \<in> set js. j < length preds \<and> length (preds ! j) = N" using Cons.prems(1) by simp
  from Cons.IH [OF this l1] obtain av' where
    r: "avg_loop N ALPHA preds js ?av1 = Some av'" and l': "length av' = N"
    and s: "\<forall>k < N. av' ! k = ?av1 ! k + ALPHA * sum_list (map (\<lambda>j. preds ! j ! k) js)"
    by blast
  have "\<forall>k < N. av' ! k = av ! k + ALPHA * sum_list (map (\<lambda>j. preds ! j ! k) (j # js))"
  proof (intro allI impI)
    fix k assume k: "k < N"
    then have "?av1 ! k = av ! k + ALPHA * (preds ! j ! k)"
      using j Cons.prems(2) by simp
    then show "av' ! k = av ! k + ALPHA * sum_list (map (\<lambda>j. preds ! j ! k) (j # js))"
      using s k by (simp add: distrib_left)
  qed
  moreover have "avg_loop N ALPHA preds (j # js) av = Some av'"
    using j a r by simp
  ultimately show ?case using l' by blast
qed

lemma sum_rows:
  "sum_list (map (\<lambda>j. preds ! j ! k) [0..<length preds]) = sum_list (map (\<lambda>row. row ! k) preds)"
proof -
  have "map (\<lambda>j. preds ! j ! k) [0..<length preds]
      = map (\<lambda>row. row ! k) (map (\<lambda>j. preds ! j) [0..<length preds])"
    by (simp add: comp_def)
  then show ?thesis by (simp only: map_nth)
qed

lemma elementwise_mean_same:
  assumes "0 < length hist" "list_all (\<lambda>row. row = v) hist" "length v = n"
  shows "elementwise_mean hist n = v"
proof -
  have "\<forall>row \<in> set hist. row = v" using assms(2) by (simp add: list_all_iff)
  then have h: "hist = replicate (length hist) v"
    by (metis replicate_length_same)
  have "\<And>k. sum_list (map (\<lambda>row. row ! k) hist) = real (length hist) * v ! k"
    by (subst h) (simp add: sum_list_replicate)
  then have "elementwise_mean hist n = map (\<lambda>k. v ! k) [0..<n]"
    using assms(1) by (simp add: elementwise_mean_def)
  moreover have "map (\<lambda>k. v ! k) [0..<n] = v"
    using map_nth [of v] assms(3) by simp
  ultimately show ?thesis by simp
qed

text \<open>
  On a history of the shape that the set-up gives it, \<^verbatim>\<open>avgPredictions\<close> is defined,
  leaves the element-wise mean of the rows in \<^verbatim>\<open>avg_\<close> and writes it into the
  outputs of the detection layers.
\<close>

lemma avgPredictions_ready:
  assumes "averager_ready st nw"
  shows "\<exists>av ls'. avgPredictions dk nw st
           = Some (st\<lparr>avg := av\<rparr>, nw\<lparr>layers := ls'\<rparr>,
                   get_network_boxes dk (nw\<lparr>layers := ls'\<rparr>) (img_w (hd (buff st)))
                     (img_h (hd (buff st))) (demoThresh st) (demoHier st))
       \<and> av = elementwise_mean (predictions st) (demoTotal st)
       \<and> detection_outputs (nw\<lparr>layers := ls'\<rparr>) = av
       \<and> map ltype ls' = map ltype (layers nw) \<and> map outputs ls' = map outputs (layers nw)
       \<and> layers_sized (nw\<lparr>layers := ls'\<rparr>)"
proof -
  let ?N = "demoTotal st"
  let ?W = "demoFrame st"
  let ?preds = "predictions st"
  from assms have W: "0 < ?W" and lp: "length ?preds = ?W"
    and rows: "\<forall>row \<in> set ?preds. length row = ?N"
    and la: "length (avg st) = ?N" and tot: "?N = sizeNetwork_loop (layers nw) 0"
    and wf: "list_all (\<lambda>l. is_detection_layer l \<longrightarrow> length (l_output l) = outputs l) (layers nw)"
    and bf: "buff st \<noteq> []"
    by (simp_all add: averager_ready_def list_all_iff sizeNetwork_def layers_sized_def)
  have f: "fill_cpu ?N 0 (avg st) = Some (replicate ?N 0)"
    using la by (simp add: fill_cpu_def)
  have "\<forall>j \<in> set [0..<?W]. j < length ?preds \<and> length (?preds ! j) = ?N"
    using lp rows by simp
  from avg_loop_sum [OF this, of "replicate ?N 0" "1 / real ?W"] obtain av where
    al: "avg_loop ?N (1 / real ?W) ?preds [0..<?W] (replicate ?N 0) = Some av"
    and lav: "length av = ?N"
    and s: "\<forall>k < ?N. av ! k = replicate ?N 0 ! k
              + 1 / real ?W * sum_list (map (\<lambda>j. ?preds ! j ! k) [0..<?W])"
    by auto
  have mean: "av = elementwise_mean ?preds ?N"
  proof (rule nth_equalityI)
    show "length av = length (elementwise_mean ?preds ?N)"
      using lav by (simp add: elementwise_mean_def)
  next
    fix k assume "k < length av"
    then have k: "k < ?N" using lav by simp
    have sr: "sum_list (map (\<lambda>j. ?preds ! j ! k) [0..<?W])
        = sum_list (map (\<lambda>row. row ! k) ?preds)"
      using sum_rows [of ?preds k] lp by simp
    have "av ! k = sum_list (map (\<lambda>j. ?preds ! j ! k) [0..<?W]) / real ?W"
      using s k by simp
    also have "\<dots> = sum_list (map (\<lambda>row. row ! k) ?preds) / real (length ?preds)"
      by (simp only: sr lp)
    also have "\<dots> = elementwise_mean ?preds ?N ! k"
      using k by (simp add: elementwise_mean_def)
    finally show "av ! k = elementwise_mean ?preds ?N ! k" .
  qed
  have "0 + sizeNetwork_loop (layers nw) 0 \<le> length av" using lav tot by simp
  from writeback_loop_concat [OF wf this] obtain ls' where
    w: "writeback_loop (layers nw) 0 av = Some ls'"
    and cc: "concat (map l_output (filter is_detection_layer ls'))
           = take (sizeNetwork_loop (layers nw) 0) (drop 0 av)"
    and ty: "map ltype ls' = map ltype (layers nw)"
    and ou: "map outputs ls' = map outputs (layers nw)"
    and wf': "list_all (\<lambda>l. is_detection_layer l \<longrightarrow> length (l_output l) = outputs l) ls'"
    by blast
  have sized: "layers_sized (nw\<lparr>layers := ls'\<rparr>)"
    using wf' by (simp add: layers_sized_def)
  have out: "detection_outputs (nw\<lparr>layers := ls'\<rparr>) = av"
    using cc lav tot by (simp add: detection_outputs_def)
  from bf obtain b0 rest where b: "buff st = b0 # rest" by (cases "buff st") auto
  have "avgPredictions dk nw st
           = Some (st\<lparr>avg := av\<rparr>, nw\<lparr>layers := ls'\<rparr>,
                   get_network_boxes dk (nw\<lparr>layers := ls'\<rparr>) (img_w (hd (buff st)))
                     (img_h (hd (buff st))) (demoThresh st) (demoHier st))"
    by (simp add: avgPredictions_def f al w b Let_def)
  with mean out ty ou sized show ?thesis by blast
qed

lemma rememberNetwork_ready:
  assumes "averager_ready st nw"
  shows "rememberNetwork nw st
       = Some (st\<lparr>predictions := (predictions st)[demoIndex st := detection_outputs nw]\<rparr>)"
proof -
  let ?row = "predictions st ! demoIndex st"
  from assms have i: "demoIndex st < length (predictions st)"
    and wf: "list_all (\<lambda>l. is_detection_layer l \<longrightarrow> length (l_output l) = outputs l) (layers nw)"
    and tot: "demoTotal st = sizeNetwork_loop (layers nw) 0"
    and rows: "\<forall>row \<in> set (predictions st). length row = demoTotal st"
    by (simp_all add: averager_ready_def list_all_iff sizeNetwork_def layers_sized_def)
  have lr: "length ?row = sizeNetwork_loop (layers nw) 0" using rows i tot by simp
  then have "0 + sizeNetwork_loop (layers nw) 0 \<le> length ?row" by simp
  from rememberNetwork_loop_concat [OF wf this]
  have "rememberNetwork_loop (layers nw) 0 ?row = Some (detection_outputs nw)"
    using lr by (simp add: detection_outputs_def)
  then show ?thesis using i by (simp add: rememberNetwork_def)
qed

lemma avgPredictions_mean:
  assumes "averager_ready st nw"
  shows "rememberNetwork nw st
           = Some (st\<lparr>predictions := (predictions st)[demoIndex st := detection_outputs nw]\<rparr>)
       \<and> (\<exists>st' nw' dets. avgPredictions dk nw st = Some (st', nw', dets)
            \<and> avg st' = elementwise_mean (predictions st) (demoTotal st)
            \<and> predictions st' = predictions st
            \<and> detection_outputs nw' = avg st'
            \<and> map ltype (layers nw') = map ltype (layers nw)
            \<and> dets = get_network_boxes dk nw' (img_w (hd (buff st))) (img_h (hd (buff st)))
                       (demoThresh st) (demoHier st)
            \<and> (\<forall>v. length v = demoTotal st \<and> list_all (\<lambda>row. row = v) (predictions st) \<longrightarrow>
                  avg st' = v \<and> detection_outputs nw' = v))"
proof
  show "rememberNetwork nw st
           = Some (st\<lparr>predictions := (predictions st)[demoIndex st := detection_outputs nw]\<rparr>)"
    by (rule rememberNetwork_ready [OF assms])
next
  from avgPredictions_ready [OF assms, of dk] obtain av ls' where
    a: "avgPredictions dk nw st
           = Some (st\<lparr>avg := av\<rparr>, nw\<lparr>layers := ls'\<rparr>,
                   get_network_boxes dk (nw\<lparr>layers := ls'\<rparr>) (img_w (hd (buff st)))
                     (img_h (hd (buff st))) (demoThresh st) (demoHier st))"
    and m: "av = elementwise_mean (predictions st) (demoTotal st)"
    and o: "detection_outputs (nw\<lparr>layers := ls'\<rparr>) = av"
    and t: "map ltype ls' = map ltype (layers nw)"
    by blast
  have same: "\<forall>v. length v = demoTotal st \<and> list_all (\<lambda>row. row = v) (predictions st) \<longrightarrow>
                  av = v \<and> detection_outputs (nw\<lparr>layers := ls'\<rparr>) = v"
  proof (intro allI impI)
    fix v assume v: "length v = demoTotal st \<and> list_all (\<lambda>row. row = v) (predictions st)"
    have "0 < length (predictions st)" using assms by (simp add: averager_ready_def)
    then have "elementwise_mean (predictions st) (demoTotal st) = v"
      using v by (intro elementwise_mean_same) simp_all
    then show "av = v \<and> detection_outputs (nw\<lparr>layers := ls'\<rparr>) = v" using m o by simp
  qed
  show "\<exists>st' nw' dets. avgPredictions dk nw st = Some (st', nw', dets)
            \<and> avg st' = elementwise_mean (predictions st) (demoTotal st)
            \<and> predictions st' = predictions st
            \<and> detection_outputs nw' = avg st'
            \<and> map ltype (layers nw') = map ltype (layers nw)
            \<and> dets = get_network_boxes dk nw' (img_w (hd (buff st))) (img_h (hd (buff st)))
                       (demoThresh st) (demoHier st)
            \<and> (\<forall>v. length v = demoTotal st \<and> list_all (\<lambda>row. row = v) (predictions st) \<longrightarrow>
                  avg st' = v \<and> detection_outputs nw' = v)"
    using a m o t same by (intro exI [of _ "st\<lparr>avg := av\<rparr>"] exI [of _ "nw\<lparr>layers := ls'\<rparr>"] exI conjI) simp_all
qed

section \<open>Passes of the loop under any schedule\<close>

lemma publishInThread_keeps_boxes:
  assumes "publishInThread st = Some st'"
  shows "roiBoxes st' = roiBoxes st" "demoClasses st' = demoClasses st"
proof -
  from assms obtain st1 where e: "st' = clear_results (complete_request st1)"
    and s: "publish_detections (rb_num (roiBoxes st ! 0)) st = Some st1
            \<or> st1 = st\<lparr>objectPublished := objectPublished st @ [int8_cast 0]\<rparr>"
    by (auto simp: publishInThread_def Let_def split: if_splits option.splits)
  from s have "roiBoxes st1 = roiBoxes st \<and> demoClasses st1 = demoClasses st"
    by (auto simp: publish_detections_def Let_def split: if_splits prod.splits)
  then show "roiBoxes st' = roiBoxes st" "demoClasses st' = demoClasses st"
    by (simp_all add: e clear_results_def complete_request_def)
qed

text \<open>What every stage leaves alone, and what every stage but one leaves alone.\<close>

lemma run_stage_keeps:
  assumes "run_stage dk key s st = Some st'"
  shows "isNodeRunning st' = isNodeRunning st \<and> sem_new_image st' = sem_new_image st
       \<and> buffIndex st' = buffIndex st \<and> actionId st' = actionId st \<and> ros_ok st' = ros_ok st
       \<and> demoClasses st' = demoClasses st
       \<and> fetch_thread_joinable st' = fetch_thread_joinable st
       \<and> detect_thread_joinable st' = detect_thread_joinable st"
proof (cases s)
  case Fetch
  then show ?thesis using assms fetchInThread_keeps [of dk st st'] by (simp add: run_stage_def)
next
  case Detect
  then show ?thesis using assms detectInThread_keeps [of dk st st'] by (simp add: run_stage_def)
next
  case Display
  then show ?thesis using assms displayInThread_keeps [of dk key st st']
    by (simp add: run_stage_def)
next
  case Publish
  then show ?thesis
    using assms publishInThread_keeps [of st st'] publishInThread_keeps_boxes [of st st']
    by (simp add: run_stage_def)
qed

lemma run_stage_keeps_published:
  assumes "run_stage dk key s st = Some st'" "s \<noteq> Publish"
  shows "objectPublished st' = objectPublished st \<and> actionResults st' = actionResults st
       \<and> checkForObjectsActionServer st' = checkForObjectsActionServer st"
proof (cases s)
  case Fetch
  then show ?thesis using assms fetchInThread_keeps [of dk st st'] by (simp add: run_stage_def)
next
  case Detect
  then show ?thesis using assms detectInThread_keeps [of dk st st'] by (simp add: run_stage_def)
next
  case Display
  then show ?thesis using assms displayInThread_keeps [of dk key st st']
    by (simp add: run_stage_def)
next
  case Publish
  then show ?thesis using assms by simp
qed

lemma run_stage_keeps_roiBoxes:
  assumes "run_stage dk key s st = Some st'" "s \<noteq> Detect"
  shows "roiBoxes st' = roiBoxes st"
proof (cases s)
  case Fetch
  then show ?thesis using assms fetchInThread_keeps [of dk st st'] by (simp add: run_stage_def)
next
  case Detect
  then show ?thesis using assms by simp
next
  case Display
  then show ?thesis using assms displayInThread_keeps [of dk key st st']
    by (simp add: run_stage_def)
next
  case Publish
  then show ?thesis using assms publishInThread_keeps_boxes [of st st']
    by (simp add: run_stage_def)
qed

lemma run_stage_keeps_buffId:
  assumes "run_stage dk key s st = Some st'" "s \<noteq> Fetch"
  shows "buffId st' = buffId st"
proof (cases s)
  case Fetch
  then show ?thesis using assms by simp
next
  case Detect
  then show ?thesis using assms detectInThread_keeps [of dk st st'] by (simp add: run_stage_def)
next
  case Display
  then show ?thesis using assms displayInThread_keeps [of dk key st st']
    by (simp add: run_stage_def)
next
  case Publish
  then show ?thesis using assms publishInThread_keeps [of st st'] by (simp add: run_stage_def)
qed

lemma run_stages_append:
  "run_stages dk key (xs @ ys) st =
     (case run_stages dk key xs st of None \<Rightarrow> None | Some st' \<Rightarrow> run_stages dk key ys st')"
  by (induction xs arbitrary: st) (auto split: option.splits)

lemma run_stages_keeps:
  assumes "run_stages dk key ss st = Some st'"
  shows "isNodeRunning st' = isNodeRunning st \<and> sem_new_image st' = sem_new_image st
       \<and> buffIndex st' = buffIndex st \<and> actionId st' = actionId st \<and> ros_ok st' = ros_ok st
       \<and> demoClasses st' = demoClasses st
       \<and> fetch_thread_joinable st' = fetch_thread_joinable st
       \<and> detect_thread_joinable st' = detect_thread_joinable st"
  using assms
proof (induction ss arbitrary: st)
  case Nil
  then show ?case by simp
next
  case (Cons s ss)
  from Cons.prems obtain st1 where a: "run_stage dk key s st = Some st1"
    and b: "run_stages dk key ss st1 = Some st'"
    by (auto split: option.splits)
  from run_stage_keeps [OF a] Cons.IH [OF b] show ?case by simp
qed

lemma run_stages_keeps_published:
  assumes "run_stages dk key ss st = Some st'" "Publish \<notin> set ss"
  shows "objectPublished st' = objectPublished st \<and> actionResults st' = actionResults st
       \<and> checkForObjectsActionServer st' = checkForObjectsActionServer st"
  using assms
proof (induction ss arbitrary: st)
  case Nil
  then show ?case by simp
next
  case (Cons s ss)
  from Cons.prems obtain st1 where a: "run_stage dk key s st = Some st1"
    and b: "run_stages dk key ss st1 = Some st'"
    by (auto split: option.splits)
  have "s \<noteq> Publish" "Publish \<notin> set ss" using Cons.prems(2) by auto
  from run_stage_keeps_published [OF a this(1)] Cons.IH [OF b this(2)] show ?case by simp
qed

lemma run_stages_keeps_roiBoxes:
  assumes "run_stages dk key ss st = Some st'" "Detect \<notin> set ss"
  shows "roiBoxes st' = roiBoxes st"
  using assms
proof (induction ss arbitrary: st)
  case Nil
  then show ?case by simp
next
  case (Cons s ss)
  from Cons.prems obtain st1 where a: "run_stage dk key s st = Some st1"
    and b: "run_stages dk key ss st1 = Some st'"
    by (auto split: option.splits)
  have "s \<noteq> Detect" "Detect \<notin> set ss" using Cons.prems(2) by auto
  from run_stage_keeps_roiBoxes [OF a this(1)] Cons.IH [OF b this(2)] show ?case by simp
qed

lemma run_stages_keeps_buffId:
  assumes "run_stages dk key ss st = Some st'" "Fetch \<notin> set ss"
  shows "buffId st' = buffId st"
  using assms
proof (induction ss arbitrary: st)
  case Nil
  then show ?case by simp
next
  case (Cons s ss)
  from Cons.prems obtain st1 where a: "run_stage dk key s st = Some st1"
    and b: "run_stages dk key ss st1 = Some st'"
    by (auto split: option.splits)
  have "s \<noteq> Fetch" "Fetch \<notin> set ss" using Cons.prems(2) by auto
  from run_stage_keeps_buffId [OF a this(1)] Cons.IH [OF b this(2)] show ?case by simp
qed

text \<open>A schedule, cut at one of its stages.\<close>

lemma interleaving_split:
  assumes "interleaving sched" 
  obtains pre post where "sched = pre @ s # post" "s \<notin> set pre" "s \<notin> set post"
proof -
  have "s \<in> set sched" using assms by (cases s) (simp_all add: interleaving_def)
  then obtain pre post where sp: "sched = pre @ s # post" by (meson split_list)
  moreover have "distinct sched" using assms by (simp add: interleaving_def)
  ultimately have "s \<notin> set pre" "s \<notin> set post" by auto
  with sp that show thesis by blast
qed

lemma takeWhile_split:
  assumes "s \<notin> set pre"
  shows "takeWhile (\<lambda>t. t \<noteq> s) (pre @ s # post) = pre"
  using assms by (induction pre) auto

lemma yolo_iteration_Some:
  assumes "yolo_iteration dk key sched st = Some st'"
  obtains st4 where
    "run_stages dk key sched (st\<lparr>buffIndex := advance_buffIndex (buffIndex st),
                                fetch_thread_joinable := True,
                                detect_thread_joinable := True\<rparr>) = Some st4"
    "st' = (if \<not> isNodeRunning st4
            then st4\<lparr>fetch_thread_joinable := False, detect_thread_joinable := False,
                     demoDone := True\<rparr>
            else st4\<lparr>fetch_thread_joinable := False, detect_thread_joinable := False\<rparr>)"
  using assms
  by (auto simp: yolo_iteration_def Let_def split: option.splits if_splits)

text \<open>
  The detect stage leaves in \<^verbatim>\<open>roiBoxes_[0].num\<close> the number of surviving detections
  among the boxes it decoded.
\<close>

lemma detectInThread_count:
  assumes "detectInThread dk st = Some st'"
  obtains sb dets where "detect_boxes dk st = Some (sb, dets)"
    "rb_num (roiBoxes st' ! 0) = int (length (survivors (demoClasses st) dets))"
    "length (roiBoxes st') = length (roiBoxes st)" "roiBoxes st' \<noteq> []"
    "length (survivors (demoClasses st) dets) \<le> length (roiBoxes st')"
proof -
  from assms obtain sb dets roi count where
    db: "detect_boxes dk st = Some (sb, dets)"
    and eb: "extract_boxes sb dets = Some (roi, count)"
    and st': "st' = sb\<lparr>roiBoxes := roi, demoIndex := (demoIndex sb + 1) mod demoFrame sb\<rparr>"
    by (auto simp: detectInThread_def split: if_splits option.splits)
  have nc: "demoClasses sb = demoClasses st" and rb: "roiBoxes sb = roiBoxes st"
    using detect_boxes_keeps [OF db] by simp_all
  note x = extract_boxes_Some [OF eb]
  have "count = length (survivors (demoClasses st) dets)" using x by (simp add: nc)
  moreover have "rb_num (roi ! 0) = int count" using x by simp
  moreover have "length roi = length (roiBoxes st)" using x by (simp add: rb)
  moreover have "roi \<noteq> []" using x by auto
  moreover have "count \<le> length roi" using x by simp
  ultimately have "rb_num (roiBoxes st' ! 0) = int (length (survivors (demoClasses st) dets))"
    "length (roiBoxes st') = length (roiBoxes st)" "roiBoxes st' \<noteq> []"
    "length (survivors (demoClasses st) dets) \<le> length (roiBoxes st')"
    by (auto simp: st')
  with db that show thesis by blast
qed

lemma split_unique:
  assumes "xs @ s # ys = xs' @ s # ys'" "s \<notin> set xs" "s \<notin> set xs'"
  shows "xs = xs' \<and> ys = ys'"
  using assms
proof (induction xs arbitrary: xs')
  case Nil
  then show ?case by (cases xs') auto
next
  case (Cons x xs)
  then show ?case by (cases xs') auto
qed

lemma published_count_nat: "published_count (int n) = (if n \<le> 100 then int n else 0)"
  by (simp add: published_count_def)

text \<open>
  The count that a pass publishes, under any schedule: the publish stage reads the
  number that the detect stage of this pass has left if that stage is scheduled
  before it, and otherwise the number that was there when the pass began.
\<close>

lemma yolo_iteration_count:
  assumes il: "interleaving sched" and it: "yolo_iteration dk key sched st = Some st'"
  shows "\<exists>dets. iteration_detections dk key sched st = Some dets
         \<and> objectPublished st' = objectPublished st
              @ [published_count (if detect_before_publish sched
                                  then int (length (survivors (demoClasses st) dets))
                                  else rb_num (roiBoxes st ! 0))]
         \<and> rb_num (roiBoxes st' ! 0) = int (length (survivors (demoClasses st) dets))"
proof -
  let ?st0 = "st\<lparr>buffIndex := advance_buffIndex (buffIndex st),
                fetch_thread_joinable := True, detect_thread_joinable := True\<rparr>"
  from it obtain st4 where
    run: "run_stages dk key sched ?st0 = Some st4"
    and e: "st' = (if \<not> isNodeRunning st4
            then st4\<lparr>fetch_thread_joinable := False, detect_thread_joinable := False,
                     demoDone := True\<rparr>
            else st4\<lparr>fetch_thread_joinable := False, detect_thread_joinable := False\<rparr>)"
    by (rule yolo_iteration_Some)
  have o': "objectPublished st' = objectPublished st4" and r': "roiBoxes st' = roiBoxes st4"
    using e by simp_all
  \<comment> \<open>the schedule around the detect stage\<close>
  from il obtain a b where sd: "sched = a @ Detect # b"
    and da: "Detect \<notin> set a" and db: "Detect \<notin> set b"
    by (rule interleaving_split)
  from run obtain sa sd' where
    ra: "run_stages dk key a ?st0 = Some sa"
    and rd: "detectInThread dk sa = Some sd'"
    and rb: "run_stages dk key b sd' = Some st4"
    by (auto simp: sd run_stages_append run_stage_def split: option.splits)
  have ca: "demoClasses sa = demoClasses st"
    using run_stages_keeps [OF ra] by simp
  from rd obtain sb dets where
    dbx: "detect_boxes dk sa = Some (sb, dets)"
    and num: "rb_num (roiBoxes sd' ! 0) = int (length (survivors (demoClasses st) dets))"
    by (rule detectInThread_count) (simp add: ca)
  have idet: "iteration_detections dk key sched st = Some dets"
    by (simp add: iteration_detections_def sd takeWhile_split [OF da] ra dbx)
  have r4: "roiBoxes st4 = roiBoxes sd'"
    using run_stages_keeps_roiBoxes [OF rb db] .
  have c3: "rb_num (roiBoxes st' ! 0) = int (length (survivors (demoClasses st) dets))"
    by (simp add: r' r4 num)
  \<comment> \<open>the schedule around the publish stage\<close>
  from il obtain pre post where sp: "sched = pre @ Publish # post"
    and pa: "Publish \<notin> set pre" and pb: "Publish \<notin> set post"
    by (rule interleaving_split)
  from run obtain s1 s2 where
    r1: "run_stages dk key pre ?st0 = Some s1"
    and rp: "publishInThread s1 = Some s2"
    and r2: "run_stages dk key post s2 = Some st4"
    by (auto simp: sp run_stages_append run_stage_def split: option.splits)
  have o1: "objectPublished s1 = objectPublished st"
    using run_stages_keeps_published [OF r1 pa] by simp
  have o4: "objectPublished st4 = objectPublished s2"
    using run_stages_keeps_published [OF r2 pb] by simp
  have dbp: "detect_before_publish sched \<longleftrightarrow> Detect \<in> set pre"
    by (simp add: detect_before_publish_def sp takeWhile_split [OF pa])
  have read: "rb_num (roiBoxes s1 ! 0)
      = (if detect_before_publish sched then int (length (survivors (demoClasses st) dets))
         else rb_num (roiBoxes st ! 0))"
  proof (cases "Detect \<in> set pre")
    case False
    then have "roiBoxes s1 = roiBoxes ?st0"
      using run_stages_keeps_roiBoxes [OF r1] by simp
    then show ?thesis using False dbp by simp
  next
    case True
    then obtain c d where pc: "pre = c @ Detect # d" by (meson split_list)
    have eq: "a @ Detect # b = c @ Detect # (d @ Publish # post)"
      using sd sp pc by simp
    have "distinct pre" using il sp by (simp add: interleaving_def)
    then have dc: "Detect \<notin> set c" using pc by simp
    from split_unique [OF eq da dc] have ac: "a = c" and bd: "b = d @ Publish # post"
      by simp_all
    have dd: "Detect \<notin> set d" using db bd by simp
    from r1 obtain sa2 sd2 where
      "run_stages dk key c ?st0 = Some sa2" "detectInThread dk sa2 = Some sd2"
      and rest: "run_stages dk key d sd2 = Some s1"
      by (auto simp: pc run_stages_append run_stage_def split: option.splits)
    then have "sd2 = sd'" using ra rd ac by simp
    then have "roiBoxes s1 = roiBoxes sd'"
      using run_stages_keeps_roiBoxes [OF rest dd] by simp
    then show ?thesis using True dbp num by simp
  qed
  have c2: "objectPublished st' = objectPublished st
              @ [published_count (if detect_before_publish sched
                                  then int (length (survivors (demoClasses st) dets))
                                  else rb_num (roiBoxes st ! 0))]"
    using publishInThread_count [OF rp]
    by (simp add: o' o4 o1 read published_count_def)
  from idet c2 c3 show ?thesis by blast
qed

section \<open>Passes that stay inside the arrays\<close>

lemma sizeNetwork_loop_cong:
  assumes "map ltype ls = map ltype ls'" "map outputs ls = map outputs ls'"
  shows "sizeNetwork_loop ls c = sizeNetwork_loop ls' c"
  using assms
proof (induction ls arbitrary: ls' c)
  case Nil
  then show ?case by simp
next
  case (Cons l ls)
  then obtain l' ls2 where e: "ls' = l' # ls2" by (cases ls') auto
  with Cons.prems have "ltype l = ltype l'" "outputs l = outputs l'"
    "map ltype ls = map ltype ls2" "map outputs ls = map outputs ls2" by simp_all
  then show ?case using Cons.IH [of ls2] e by (simp add: is_detection_layer_def)
qed

lemma sizeNetwork_cong:
  assumes "map ltype (layers nw) = map ltype (layers nw')"
    "map outputs (layers nw) = map outputs (layers nw')"
  shows "sizeNetwork nw = sizeNetwork nw'"
  using sizeNetwork_loop_cong [OF assms] by (simp add: sizeNetwork_def)

lemma length_detection_outputs:
  assumes "layers_sized nw"
  shows "length (detection_outputs nw) = sizeNetwork nw"
  using sizeNetwork_loop_concat [of "layers nw"] assms
  by (simp add: detection_outputs_def sizeNetwork_def layers_sized_def)

lemma length_elementwise_mean [simp]: "length (elementwise_mean hist n) = n"
  by (simp add: elementwise_mean_def)

lemma ready_slots:
  assumes "buffIndex st \<in> {0, 1, 2}"
  shows "0 \<le> fetch_slot (buffIndex st) \<and> fetch_slot (buffIndex st) < 3
       \<and> 0 \<le> detect_slot (buffIndex st) \<and> detect_slot (buffIndex st) < 3
       \<and> 0 \<le> display_slot (buffIndex st) \<and> display_slot (buffIndex st) < 3"
  using assms
  by (auto simp: fetch_slot_def detect_slot_def display_slot_def signed_modulo_int_def)


lemma boxes_fit_cong:
  assumes "boxes_fit dk st" "demoClasses st' = demoClasses st"
    "length (roiBoxes st') = length (roiBoxes st)"
  shows "boxes_fit dk st'"
  using assms by (simp add: boxes_fit_def)

lemma pipeline_ready_cong:
  assumes r: "pipeline_ready dk st"
    and "buffIndex st' = buffIndex st"
    and "length (buff st') = 3" "length (buffLetter st') = 3"
    and "length (headerBuff st') = 3" "length (buffId st') = 3"
    and "net st' = net st" "predictions st' = predictions st" "avg st' = avg st"
    and "demoFrame st' = demoFrame st" "demoTotal st' = demoTotal st"
    and "demoIndex st' = demoIndex st"
    and "frameWidth st' = frameWidth st" "frameHeight st' = frameHeight st"
    and "camDmapCopy st' = camDmapCopy st"
    and "roiBoxes st' = roiBoxes st" "demoClasses st' = demoClasses st"
    and "numClasses st' = numClasses st" "classLabels st' = classLabels st"
    and "rosBoxes st' = rosBoxes st" "rosBoxCounter st' = rosBoxCounter st"
  shows "pipeline_ready dk st'"
proof -
  from r have "boxes_fit dk st" by (simp add: pipeline_ready_def)
  then have b: "boxes_fit dk st'" using assms by (simp add: boxes_fit_cong)
  from assms(3) have n: "buff st' \<noteq> []" by auto
  from r have "averager_ready st (net st)" by (simp add: pipeline_ready_def)
  then have a: "averager_ready st' (net st')" using assms n by (auto simp: averager_ready_def)
  from r have "depth_readable st" by (simp add: pipeline_ready_def)
  then have d: "depth_readable st'" using assms by (simp add: depth_readable_def)
  from r a b d show ?thesis using assms by (simp add: pipeline_ready_def)
qed

lemma fetchInThread_ready:
  assumes r: "pipeline_ready dk st"
  shows "\<exists>st'. fetchInThread dk st = Some st' \<and> pipeline_ready dk st'"
proof -
  from r have i: "buffIndex st \<in> {0, 1, 2}" by (simp add: pipeline_ready_def)
  note sl = ready_slots [OF i]
  from r have len: "length (buff st) = 3" "length (buffLetter st) = 3"
    "length (headerBuff st) = 3" "length (buffId st) = 3"
    by (simp_all add: pipeline_ready_def)
  from sl len obtain st' where f: "fetchInThread dk st = Some st'"
    by (simp add: fetchInThread_def getIplImageWithHeader_def Let_def)
  from f len have "buffIndex st' = buffIndex st \<and> length (buff st') = 3
      \<and> length (buffLetter st') = 3 \<and> length (headerBuff st') = 3
      \<and> length (buffId st') = 3 \<and> net st' = net st \<and> predictions st' = predictions st
      \<and> avg st' = avg st \<and> demoFrame st' = demoFrame st \<and> demoTotal st' = demoTotal st
      \<and> demoIndex st' = demoIndex st \<and> frameWidth st' = frameWidth st
      \<and> frameHeight st' = frameHeight st \<and> camDmapCopy st' = camDmapCopy st
      \<and> roiBoxes st' = roiBoxes st \<and> demoClasses st' = demoClasses st
      \<and> numClasses st' = numClasses st \<and> classLabels st' = classLabels st
      \<and> rosBoxes st' = rosBoxes st \<and> rosBoxCounter st' = rosBoxCounter st"
    by (auto simp: fetchInThread_def getIplImageWithHeader_def Let_def split: if_splits)
  then have "pipeline_ready dk st'"
    by (intro pipeline_ready_cong [OF r]) simp_all
  with f show ?thesis by simp
qed

lemma displayInThread_ready:
  assumes r: "pipeline_ready dk st"
  shows "\<exists>st'. displayInThread dk key st = Some st' \<and> pipeline_ready dk st'"
proof -
  from r have i: "buffIndex st \<in> {0, 1, 2}" by (simp add: pipeline_ready_def)
  note sl = ready_slots [OF i]
  from r have len: "length (buff st) = 3" "length (buffLetter st) = 3"
    "length (headerBuff st) = 3" "length (buffId st) = 3"
    by (simp_all add: pipeline_ready_def)
  from sl len obtain st' where f: "displayInThread dk key st = Some st'"
    by (simp add: displayInThread_def Let_def)
  from f len have "buffIndex st' = buffIndex st \<and> length (buff st') = 3
      \<and> length (buffLetter st') = 3 \<and> length (headerBuff st') = 3
      \<and> length (buffId st') = 3 \<and> net st' = net st \<and> predictions st' = predictions st
      \<and> avg st' = avg st \<and> demoFrame st' = demoFrame st \<and> demoTotal st' = demoTotal st
      \<and> demoIndex st' = demoIndex st \<and> frameWidth st' = frameWidth st
      \<and> frameHeight st' = frameHeight st \<and> camDmapCopy st' = camDmapCopy st
      \<and> roiBoxes st' = roiBoxes st \<and> demoClasses st' = demoClasses st
      \<and> numClasses st' = numClasses st \<and> classLabels st' = classLabels st
      \<and> rosBoxes st' = rosBoxes st \<and> rosBoxCounter st' = rosBoxCounter st"
    by (auto simp: displayInThread_def Let_def split: if_splits)
  then have "pipeline_ready dk st'"
    by (intro pipeline_ready_cong [OF r]) simp_all
  with f show ?thesis by simp
qed
lemma pipeline_ready_step:
  assumes r: "pipeline_ready dk st"
    and "buffIndex st' \<in> {0, 1, 2}"
    and "length (buff st') = 3" "length (buffLetter st') = 3"
    and "length (headerBuff st') = 3" "length (buffId st') = 3"
    and "layers (net st') \<noteq> []" "averager_ready st' (net st')"
    and "frameWidth st' = frameWidth st" "frameHeight st' = frameHeight st"
    and "camDmapCopy st' = camDmapCopy st"
    and "roiBoxes st' \<noteq> []" "nat (rb_num (roiBoxes st' ! 0)) \<le> length (roiBoxes st')"
    and "length (roiBoxes st') = length (roiBoxes st)" "demoClasses st' = demoClasses st"
    and "length (rosBoxes st') = numClasses st'" "length (rosBoxCounter st') = numClasses st'"
    and "length (classLabels st') = numClasses st'"
    and "list_all2 (\<lambda>c bs. c = length bs) (rosBoxCounter st') (rosBoxes st')"
  shows "pipeline_ready dk st'"
proof -
  from r have "boxes_fit dk st" by (simp add: pipeline_ready_def)
  then have b: "boxes_fit dk st'" using assms by (simp add: boxes_fit_cong)
  from r have "depth_readable st" by (simp add: pipeline_ready_def)
  then have d: "depth_readable st'" using assms by (simp add: depth_readable_def)
  from r have k: "darknet_keeps_shape dk" by (simp add: pipeline_ready_def)
  from b d k show ?thesis using assms(2-8,12-13,16-19) by (simp add: pipeline_ready_def)
qed

lemma publishInThread_ready:
  assumes r: "pipeline_ready dk st"
  shows "\<exists>st'. publishInThread st = Some st' \<and> pipeline_ready dk st'"
proof -
  from r have i: "buffIndex st \<in> {0, 1, 2}" and ne: "roiBoxes st \<noteq> []"
    and len: "length (buff st) = 3" "length (buffLetter st) = 3"
      "length (headerBuff st) = 3" "length (buffId st) = 3"
    and nc: "length (rosBoxes st) = numClasses st" "length (rosBoxCounter st) = numClasses st"
      "length (classLabels st) = numClasses st"
    and la: "list_all2 (\<lambda>c bs. c = length bs) (rosBoxCounter st) (rosBoxes st)"
    and nm: "nat (rb_num (roiBoxes st ! 0)) \<le> length (roiBoxes st)"
    and ly: "layers (net st) \<noteq> []" and av: "averager_ready st (net st)"
    by (simp_all add: pipeline_ready_def)
  from i have i': "buffIndex st \<in> {0, 1, 2}" .
  from publishInThread_total [OF ne i len(3,4) nc la] nm
  obtain st' where p: "publishInThread st = Some st'" by blast
  from p obtain st1 where e: "st' = clear_results (complete_request st1)"
    and s: "publish_detections (rb_num (roiBoxes st ! 0)) st = Some st1
            \<or> st1 = st\<lparr>objectPublished := objectPublished st @ [int8_cast 0]\<rparr>"
    by (auto simp: publishInThread_def Let_def split: if_splits option.splits)
  from s have k1: "buffIndex st1 = buffIndex st \<and> buff st1 = buff st
      \<and> buffLetter st1 = buffLetter st \<and> headerBuff st1 = headerBuff st
      \<and> buffId st1 = buffId st \<and> net st1 = net st \<and> predictions st1 = predictions st
      \<and> avg st1 = avg st \<and> demoFrame st1 = demoFrame st \<and> demoTotal st1 = demoTotal st
      \<and> demoIndex st1 = demoIndex st \<and> frameWidth st1 = frameWidth st
      \<and> frameHeight st1 = frameHeight st \<and> camDmapCopy st1 = camDmapCopy st
      \<and> roiBoxes st1 = roiBoxes st \<and> demoClasses st1 = demoClasses st
      \<and> numClasses st1 = numClasses st \<and> classLabels st1 = classLabels st"
    by (auto simp: publish_detections_def Let_def split: if_splits prod.splits)
  have k: "buffIndex st' = buffIndex st \<and> buff st' = buff st
      \<and> buffLetter st' = buffLetter st \<and> headerBuff st' = headerBuff st
      \<and> buffId st' = buffId st \<and> net st' = net st \<and> predictions st' = predictions st
      \<and> avg st' = avg st \<and> demoFrame st' = demoFrame st \<and> demoTotal st' = demoTotal st
      \<and> demoIndex st' = demoIndex st \<and> frameWidth st' = frameWidth st
      \<and> frameHeight st' = frameHeight st \<and> camDmapCopy st' = camDmapCopy st
      \<and> roiBoxes st' = roiBoxes st \<and> demoClasses st' = demoClasses st
      \<and> numClasses st' = numClasses st \<and> classLabels st' = classLabels st
      \<and> rosBoxes st' = replicate (numClasses st) []
      \<and> rosBoxCounter st' = replicate (numClasses st) 0"
    using k1 by (simp add: e clear_results_def complete_request_def)
  have a: "averager_ready st' (net st')" using av k by (auto simp: averager_ready_def)
  have l2: "list_all2 (\<lambda>c bs. c = length bs) (rosBoxCounter st') (rosBoxes st')"
    using k by (simp add: list_all2_conv_all_nth)
  have "pipeline_ready dk st'"
    using k i len nc ne nm ly a l2 by (intro pipeline_ready_step [OF r]) simp_all
  with p show ?thesis by simp
qed

lemma list_all_update:
  assumes "list_all P xs" "P x"
  shows "list_all P (xs[i := x])"
  using assms set_update_subset_insert [of xs i x] by (auto simp: list_all_iff)

lemma detect_boxes_ready:
  assumes r: "pipeline_ready dk st"
  shows "\<exists>sb nw b p av dets. detect_boxes dk st = Some (sb, dets)
           \<and> sb = st\<lparr>predictions := p, avg := av, net := nw, buff := b\<rparr>
           \<and> p = (predictions st)
                   [demoIndex st := detection_outputs (network_predict dk (net st)
                      (img_data (buffLetter st ! nat (detect_slot (buffIndex st)))))]
           \<and> av = elementwise_mean p (demoTotal st) \<and> detection_outputs nw = av
           \<and> length b = 3 \<and> layers nw \<noteq> [] \<and> averager_ready sb nw
           \<and> length (survivors (demoClasses st) dets) \<le> length (roiBoxes st)"
proof -
  from r have i: "buffIndex st \<in> {0, 1, 2}"
    and len: "length (buff st) = 3" "length (buffLetter st) = 3"
    and ly: "layers (net st) \<noteq> []" and av: "averager_ready st (net st)"
    and ks: "darknet_keeps_shape dk" and bf: "boxes_fit dk st"
    by (simp_all add: pipeline_ready_def)
  note sl = ready_slots [OF i]
  define slot where "slot = detect_slot (buffIndex st)"
  define nw1 where "nw1 = network_predict dk (net st) (img_data (buffLetter st ! nat slot))"
  from av have ls: "layers_sized (net st)" by (simp add: averager_ready_def)
  from ks ls have s1: "layers_sized nw1"
    and t1: "map ltype (layers nw1) = map ltype (layers (net st))"
    and o1: "map outputs (layers nw1) = map outputs (layers (net st))"
    unfolding darknet_keeps_shape_def nw1_def by blast+
  have sz: "sizeNetwork nw1 = sizeNetwork (net st)" by (rule sizeNetwork_cong [OF t1 o1])
  from av sz s1 have a1: "averager_ready st nw1" by (auto simp: averager_ready_def)
  define p where "p = (predictions st)[demoIndex st := detection_outputs nw1]"
  define st1 where "st1 = st\<lparr>predictions := p\<rparr>"
  have rm: "rememberNetwork nw1 st = Some st1"
    unfolding st1_def p_def by (rule rememberNetwork_ready [OF a1])
  have "length (detection_outputs nw1) = demoTotal st"
    using length_detection_outputs [OF s1] a1 by (simp add: averager_ready_def)
  with a1 have a2: "averager_ready st1 nw1"
    by (auto simp: averager_ready_def st1_def p_def intro: list_all_update)
  from avgPredictions_ready [OF a2, of dk] obtain av' ls' where
    ap: "avgPredictions dk nw1 st1
           = Some (st1\<lparr>avg := av'\<rparr>, nw1\<lparr>layers := ls'\<rparr>,
                   get_network_boxes dk (nw1\<lparr>layers := ls'\<rparr>) (img_w (hd (buff st1)))
                     (img_h (hd (buff st1))) (demoThresh st1) (demoHier st1))"
    and ave: "av' = elementwise_mean (predictions st1) (demoTotal st1)"
    and ou: "detection_outputs (nw1\<lparr>layers := ls'\<rparr>) = av'"
    and t2: "map ltype ls' = map ltype (layers nw1)"
    and o2: "map outputs ls' = map outputs (layers nw1)"
    and s2: "layers_sized (nw1\<lparr>layers := ls'\<rparr>)"
    by blast
  define nw2 where "nw2 = nw1\<lparr>layers := ls'\<rparr>"
  define dets where "dets = do_nms_obj dk
      (get_network_boxes dk nw2 (img_w (hd (buff st1))) (img_h (hd (buff st1)))
         (demoThresh st1) (demoHier st1)) (classes (last (layers (net st)))) nms"
  define b where "b = (buff st)[nat slot := draw_detections dk (buff st ! nat slot) dets
                                     (demoThresh st) (demoClasses st)]"
  define sb where "sb = st\<lparr>predictions := p, avg := av', net := nw2, buff := b\<rparr>"
  have db: "detect_boxes dk st = Some (sb, dets)"
    using sl len ly rm ap
    by (simp add: detect_boxes_def Let_def slot_def [symmetric] nw1_def [symmetric] nms_def
        sb_def dets_def b_def nw2_def st1_def)
  have lb: "length b = 3" using len by (simp add: b_def)
  have "map ltype (layers nw2) = map ltype (layers (net st))" using t1 t2 by (simp add: nw2_def)
  with ly have l2: "layers nw2 \<noteq> []" by auto
  have "sizeNetwork nw2 = sizeNetwork nw1"
    by (rule sizeNetwork_cong) (simp_all add: nw2_def t2 o2)
  with a2 s2 lb have a3: "averager_ready sb nw2"
    by (auto simp: averager_ready_def sb_def st1_def nw2_def ave)
  have fit: "length (survivors (demoClasses st) dets) \<le> length (roiBoxes st)"
    using bf unfolding boxes_fit_def dets_def by blast
  have pe: "p = (predictions st)
                   [demoIndex st := detection_outputs (network_predict dk (net st)
                      (img_data (buffLetter st ! nat (detect_slot (buffIndex st)))))]"
    by (simp add: p_def nw1_def slot_def)
  have ae: "av' = elementwise_mean p (demoTotal st)" by (simp add: ave st1_def)
  have oe: "detection_outputs nw2 = av'" by (simp add: nw2_def ou)
  from db sb_def pe ae oe lb l2 a3 fit show ?thesis by blast
qed

lemma detectInThread_history:
  assumes r: "pipeline_ready dk st"
  shows "\<exists>st'. detectInThread dk st = Some st' \<and> pipeline_ready dk st'
           \<and> predictions st'
               = (predictions st)
                   [demoIndex st := detection_outputs (network_predict dk (net st)
                      (img_data (buffLetter st ! nat (detect_slot (buffIndex st)))))]
           \<and> demoIndex st' = (demoIndex st + 1) mod demoFrame st
           \<and> avg st' = elementwise_mean (predictions st') (demoTotal st)
           \<and> detection_outputs (net st') = avg st'"
proof -
  from detect_boxes_ready [OF r] obtain sb nw b p av dets where
    db: "detect_boxes dk st = Some (sb, dets)"
    and sb: "sb = st\<lparr>predictions := p, avg := av, net := nw, buff := b\<rparr>"
    and pe: "p = (predictions st)
                   [demoIndex st := detection_outputs (network_predict dk (net st)
                      (img_data (buffLetter st ! nat (detect_slot (buffIndex st)))))]"
    and ae: "av = elementwise_mean p (demoTotal st)" and oe: "detection_outputs nw = av"
    and lb: "length b = 3" and ly: "layers nw \<noteq> []" and a: "averager_ready sb nw"
    and fit: "length (survivors (demoClasses st) dets) \<le> length (roiBoxes st)"
    by blast
  from r have i: "buffIndex st \<in> {0, 1, 2}"
    and len: "length (buffLetter st) = 3" "length (headerBuff st) = 3"
      "length (buffId st) = 3"
    and ne: "roiBoxes st \<noteq> []" and dr: "depth_readable st"
    and nc: "length (rosBoxes st) = numClasses st" "length (rosBoxCounter st) = numClasses st"
      "length (classLabels st) = numClasses st"
    and la: "list_all2 (\<lambda>c bs. c = length bs) (rosBoxCounter st) (rosBoxes st)"
    by (simp_all add: pipeline_ready_def)
  from dr have dr': "depth_readable sb" by (simp add: depth_readable_def sb)
  from ne have ne': "roiBoxes sb \<noteq> []" by (simp add: sb)
  from fit have fit': "length (survivors (demoClasses sb) dets) \<le> length (roiBoxes sb)"
    by (simp add: sb)
  from extract_boxes_total [OF dr' ne' fit'] obtain roi where
    eb: "extract_boxes sb dets = Some (roi, length (survivors (demoClasses sb) dets))"
    by blast
  from a have df: "0 < demoFrame sb" by (simp add: averager_ready_def)
  define st' where
    "st' = sb\<lparr>roiBoxes := roi, demoIndex := (demoIndex sb + 1) mod demoFrame sb\<rparr>"
  have d: "detectInThread dk st = Some st'"
    using db eb df by (simp add: detectInThread_def st'_def)
  from detectInThread_count [OF d] obtain sb2 dets2 where
    c: "rb_num (roiBoxes st' ! 0) = int (length (survivors (demoClasses st) dets2))"
      "length (roiBoxes st') = length (roiBoxes st)" "roiBoxes st' \<noteq> []"
      "length (survivors (demoClasses st) dets2) \<le> length (roiBoxes st')"
    by blast
  from a df have a': "averager_ready st' (net st')"
    by (auto simp: averager_ready_def st'_def sb)
  have rd: "pipeline_ready dk st'"
    using i len nc la lb ly c a'
    by (intro pipeline_ready_step [OF r]) (simp_all add: st'_def sb)
  have h: "predictions st' = p" "demoIndex st' = (demoIndex st + 1) mod demoFrame st"
    "avg st' = av" "net st' = nw"
    by (simp_all add: st'_def sb)
  from d rd h pe ae oe show ?thesis by simp
qed

lemma detectInThread_ready:
  assumes r: "pipeline_ready dk st"
  shows "\<exists>st'. detectInThread dk st = Some st' \<and> pipeline_ready dk st'"
  using detectInThread_history [OF r] by blast

lemma run_stage_ready:
  assumes "pipeline_ready dk st"
  shows "\<exists>st'. run_stage dk key s st = Some st' \<and> pipeline_ready dk st'"
  using fetchInThread_ready [OF assms] detectInThread_ready [OF assms]
    displayInThread_ready [OF assms] publishInThread_ready [OF assms]
  by (cases s) (simp_all add: run_stage_def)

lemma run_stages_ready:
  assumes "pipeline_ready dk st"
  shows "\<exists>st'. run_stages dk key sched st = Some st' \<and> pipeline_ready dk st'"
  using assms
proof (induction sched arbitrary: st)
  case Nil
  then show ?case by simp
next
  case (Cons s sched)
  from run_stage_ready [OF Cons.prems] obtain st1 where
    "run_stage dk key s st = Some st1" "pipeline_ready dk st1" by blast
  with Cons.IH [of st1] show ?case by simp
qed

lemma pipeline_ready_advance:
  assumes r: "pipeline_ready dk st"
  shows "pipeline_ready dk (st\<lparr>buffIndex := advance_buffIndex (buffIndex st),
                                 fetch_thread_joinable := f, detect_thread_joinable := d\<rparr>)"
proof -
  from r have "buffIndex st \<in> {0, 1, 2}" by (simp add: pipeline_ready_def)
  then have i: "advance_buffIndex (buffIndex st) \<in> {0, 1, 2}"
    by (auto simp: advance_buffIndex_def signed_modulo_int_def)
  from r have "averager_ready st (net st)" by (simp add: pipeline_ready_def)
  then have a: "averager_ready (st\<lparr>buffIndex := advance_buffIndex (buffIndex st),
                                 fetch_thread_joinable := f, detect_thread_joinable := d\<rparr>)
                  (net st)"
    by (auto simp: averager_ready_def)
  from r i a show ?thesis
    by (intro pipeline_ready_step [OF r]) (simp_all add: pipeline_ready_def)
qed

lemma pipeline_ready_flags:
  assumes r: "pipeline_ready dk st"
  shows "pipeline_ready dk (st\<lparr>fetch_thread_joinable := f, detect_thread_joinable := d\<rparr>)"
    "pipeline_ready dk (st\<lparr>fetch_thread_joinable := f, detect_thread_joinable := d,
                            demoDone := e\<rparr>)"
    "pipeline_ready dk (st\<lparr>sem_new_image := n\<rparr>)"
    "pipeline_ready dk (st\<lparr>isNodeRunning := g\<rparr>)"
  using r by (intro pipeline_ready_cong [OF r]; simp add: pipeline_ready_def)+

lemma yolo_iteration_ready:
  assumes r: "pipeline_ready dk st"
  shows "\<exists>st'. yolo_iteration dk key sched st = Some st' \<and> pipeline_ready dk st'"
proof -
  from run_stages_ready [OF pipeline_ready_advance [OF r]]
  obtain st4 where
    s: "run_stages dk key sched (st\<lparr>buffIndex := advance_buffIndex (buffIndex st),
                                    fetch_thread_joinable := True,
                                    detect_thread_joinable := True\<rparr>) = Some st4"
    and r4: "pipeline_ready dk st4" by blast
  from s pipeline_ready_flags(1,2) [OF r4] show ?thesis
    by (simp add: yolo_iteration_def Let_def)
qed

section \<open>The set-up of the loop\<close>

text \<open>
  The set-up of \<^verbatim>\<open>yolo()\<close> leaves the arrays in the shape that a pass needs, when the
  constructor has sized the vectors of the publish stage, the history has at least
  one row and the last layer has at least one box.
\<close>

lemma yolo_init_ready:
  assumes i: "yolo_init dk st = Some st'"
    and x: "buffIndex st \<in> {0, 1, 2}" "length (buffId st) = 3"
    and f: "0 < demoFrame st" "demoIndex st < demoFrame st" "layers_sized (net st)"
    and d: "depth_readable st"
    and n: "0 < l_w (last (layers (net st))) * l_h (last (layers (net st)))
                 * l_n (last (layers (net st)))"
    and p: "length (rosBoxes st) = numClasses st" "length (rosBoxCounter st) = numClasses st"
      "length (classLabels st) = numClasses st"
      "list_all2 (\<lambda>c bs. c = length bs) (rosBoxCounter st) (rosBoxes st)"
    and k: "darknet_keeps_shape dk"
    and b: "boxes_fit dk (st\<lparr>roiBoxes := replicate (l_w (last (layers (net st)))
               * l_h (last (layers (net st))) * l_n (last (layers (net st)))) zero_RosBox\<rparr>)"
  shows "pipeline_ready dk st'"
proof -
  define m where "m = l_w (last (layers (net st))) * l_h (last (layers (net st)))
                        * l_n (last (layers (net st)))"
  from i obtain b0 lb hdr where
    e: "st' = st\<lparr>demoTotal := sizeNetwork (net st),
                 predictions := replicate (demoFrame st) (replicate (sizeNetwork (net st)) 0),
                 avg := replicate (sizeNetwork (net st)) 0,
                 roiBoxes := replicate m zero_RosBox,
                 buff := [b0, b0, b0], headerBuff := [hdr, hdr, hdr],
                 buffLetter := [lb, lb, lb]\<rparr>"
    and l: "layers (net st) \<noteq> []"
    by (auto simp: yolo_init_def Let_def getIplImageWithHeader_def m_def split: if_splits)
  from n have m0: "0 < m" by (simp add: m_def)
  then obtain m' where m': "m = Suc m'" by (cases m) auto
  have a: "averager_ready st' (net st')"
    using f by (simp add: averager_ready_def e list_all_iff)
  have dr: "depth_readable st'" using d by (simp add: depth_readable_def e)
  have bf: "boxes_fit dk st'" using b by (simp add: boxes_fit_def e m_def)
  have z: "rb_num (roiBoxes st' ! 0) = 0" by (simp add: e m' zero_RosBox_def)
  have r: "roiBoxes st' \<noteq> []" using m0 by (simp add: e)
  from a dr bf z r x p k l show ?thesis by (simp add: pipeline_ready_def e)
qed

section \<open>The example node under two schedules\<close>

lemma ex_survivors:
  "survivors 2 [ex_det_thin, ex_det_over, ex_det_beyond] = [(ex_det_over, 0)]"
proof -
  have upt2: "[0..<2] = [0, 1]" by (simp add: upt_rec)
  have ct: "clip_edges (box_edges (bbox ex_det_thin))
       = \<lparr>e_xmin = 199 / 400, e_xmax = 201 / 400, e_ymin = 2 / 5, e_ymax = 3 / 5\<rparr>"
    by (simp add: ex_det_thin_def box_edges_def clip_edges_def)
  have co: "clip_edges (box_edges (bbox ex_det_over))
       = \<lparr>e_xmin = 7 / 10, e_xmax = 1, e_ymin = 1 / 4, e_ymax = 3 / 4\<rparr>"
    by (simp add: ex_det_over_def box_edges_def clip_edges_def)
  have cb: "clip_edges (box_edges (bbox ex_det_beyond))
       = \<lparr>e_xmin = 7 / 4, e_xmax = 1, e_ymin = 1 / 4, e_ymax = 3 / 4\<rparr>"
    by (simp add: ex_det_beyond_def box_edges_def clip_edges_def)
  have pr: "prob ex_det_thin = ex_prob" "prob ex_det_over = ex_prob" "prob ex_det_beyond = ex_prob"
    by (simp_all add: ex_det_thin_def ex_det_over_def ex_det_beyond_def)
  show ?thesis
    by (simp add: survivors_def upt2 survives_def ct co cb pr ex_prob_def BBox_width_def
        BBox_height_def)
qed

lemma ex_darknet_keeps_shape: "darknet_keeps_shape ex_darknet"
  by (simp add: darknet_keeps_shape_def ex_darknet_def)

lemma ex_boxes_fit:
  assumes "demoClasses st = 2" "length (roiBoxes st) = 4"
  shows "boxes_fit ex_darknet st"
  using assms by (simp add: boxes_fit_def ex_darknet_def ex_survivors)

lemma ex_averager_ready: "averager_ready ex_node ex_net"
  by (simp add: averager_ready_def ex_node_def ex_net_def sizeNetwork_def layers_sized_def
      is_detection_layer_def)

lemma ex_pipeline_ready: "pipeline_ready ex_darknet ex_node"
proof -
  have b: "boxes_fit ex_darknet ex_node" by (rule ex_boxes_fit) (simp_all add: ex_node_def)
  have a: "averager_ready ex_node (net ex_node)"
    using ex_averager_ready by (simp add: ex_node_def)
  have d: "depth_readable ex_node" by (simp add: depth_readable_def ex_node_def ex_dmap_def)
  have l: "layers (net ex_node) \<noteq> []" by (simp add: ex_node_def ex_net_def)
  have z: "rb_num (roiBoxes ex_node ! 0) = 0" by (simp add: ex_node_def zero_RosBox_def)
  have r: "buffIndex ex_node = 0" "length (buff ex_node) = 3" "length (buffLetter ex_node) = 3"
    "length (headerBuff ex_node) = 3" "length (buffId ex_node) = 3" "roiBoxes ex_node \<noteq> []"
    "length (rosBoxes ex_node) = numClasses ex_node"
    "length (rosBoxCounter ex_node) = numClasses ex_node"
    "length (classLabels ex_node) = numClasses ex_node"
    "list_all2 (\<lambda>c bs. c = length bs) (rosBoxCounter ex_node) (rosBoxes ex_node)"
    by (simp_all add: ex_node_def)
  from a b d l z r ex_darknet_keeps_shape show ?thesis by (simp add: pipeline_ready_def)
qed

lemma ex_iteration_in_order:
  "yolo_iteration ex_darknet (- 1) ex_in_order ex_node = Some ex_node_after"
proof -
  have a: "advance_buffIndex (buffIndex ex_node) = 1"
    by (simp add: advance_buffIndex_def signed_modulo_int_def ex_node_def)
  have r: "isNodeRunning ex_node_after" by (simp add: ex_node_after_def ex_node_def)
  have f: "ex_node_after\<lparr>fetch_thread_joinable := False, detect_thread_joinable := False\<rparr>
      = ex_node_after"
    by (simp add: ex_node_after_def ex_node_def)
  show ?thesis
    by (simp add: yolo_iteration_def ex_in_order_def run_stage_def a ex_fetch ex_detect
        ex_display ex_publish r f)
qed

lemma ex_darknet_detections:
  assumes "detect_boxes ex_darknet st = Some (sb, dets)"
  shows "dets = [ex_det_thin, ex_det_over, ex_det_beyond]"
  using assms
  by (auto simp: detect_boxes_def Let_def avgPredictions_def ex_darknet_def nms_def
      split: if_splits option.splits list.splits)

lemma ex_iteration_detections:
  assumes "iteration_detections ex_darknet key sched st = Some dets"
  shows "dets = [ex_det_thin, ex_det_over, ex_det_beyond]"
  using assms
  by (auto simp: iteration_detections_def split: option.splits dest: ex_darknet_detections)

lemma ex_interleavings: "interleaving ex_in_order" "interleaving ex_publish_first"
  by (auto simp: interleaving_def ex_in_order_def ex_publish_first_def)

section \<open>The history of the averager\<close>

text \<open>
  Claim C4.  On a history of \<open>W > 0\<close> rows of the length of the raw output vector,
  \<^verbatim>\<open>rememberNetwork\<close> stores the raw output vector in the row \<^verbatim>\<open>demoIndex_\<close>, and
  \<^verbatim>\<open>avgPredictions\<close> computes, element by element, the unweighted arithmetic mean of
  the \<open>W\<close> rows and writes it back into the outputs of the detection layers, from
  which the boxes are decoded.  If all \<open>W\<close> rows hold the same vector, the mean and
  the outputs written back are that vector.  A detect stage that starts with the
  arrays in shape stores the raw output vector of its inference in the row
  \<^verbatim>\<open>demoIndex_\<close>, moves \<^verbatim>\<open>demoIndex_\<close> on by one modulo \<open>W\<close>, so that the \<open>W\<close> rows
  are the vectors of the last \<open>W\<close> stages, and leaves the mean of the rows in
  \<^verbatim>\<open>avg_\<close> and in the outputs of the detection layers.
\<close>

theorem avgPredictions_is_mean:
  "(averager_ready st nw \<longrightarrow>
      rememberNetwork nw st
        = Some (st\<lparr>predictions := (predictions st)[demoIndex st := detection_outputs nw]\<rparr>)
      \<and> (\<exists>st' nw' dets. avgPredictions dk nw st = Some (st', nw', dets)
            \<and> avg st' = elementwise_mean (predictions st) (demoTotal st)
            \<and> predictions st' = predictions st
            \<and> detection_outputs nw' = avg st'
            \<and> map ltype (layers nw') = map ltype (layers nw)
            \<and> dets = get_network_boxes dk nw' (img_w (hd (buff st))) (img_h (hd (buff st)))
                       (demoThresh st) (demoHier st)
            \<and> (\<forall>v. length v = demoTotal st \<and> list_all (\<lambda>row. row = v) (predictions st) \<longrightarrow>
                  avg st' = v \<and> detection_outputs nw' = v)))
   \<and> (pipeline_ready dk st \<longrightarrow>
        (\<exists>st'. detectInThread dk st = Some st'
           \<and> predictions st'
               = (predictions st)
                   [demoIndex st := detection_outputs (network_predict dk (net st)
                      (img_data (buffLetter st ! nat (detect_slot (buffIndex st)))))]
           \<and> demoIndex st' = (demoIndex st + 1) mod demoFrame st
           \<and> avg st' = elementwise_mean (predictions st') (demoTotal st)
           \<and> detection_outputs (net st') = avg st'))"
proof (rule conjI; rule impI)
  assume a: "averager_ready st nw"
  from avgPredictions_mean [OF a, of dk]
  show "rememberNetwork nw st
        = Some (st\<lparr>predictions := (predictions st)[demoIndex st := detection_outputs nw]\<rparr>)
      \<and> (\<exists>st' nw' dets. avgPredictions dk nw st = Some (st', nw', dets)
            \<and> avg st' = elementwise_mean (predictions st) (demoTotal st)
            \<and> predictions st' = predictions st
            \<and> detection_outputs nw' = avg st'
            \<and> map ltype (layers nw') = map ltype (layers nw)
            \<and> dets = get_network_boxes dk nw' (img_w (hd (buff st))) (img_h (hd (buff st)))
                       (demoThresh st) (demoHier st)
            \<and> (\<forall>v. length v = demoTotal st \<and> list_all (\<lambda>row. row = v) (predictions st) \<longrightarrow>
                  avg st' = v \<and> detection_outputs nw' = v))" .
next
  assume r: "pipeline_ready dk st"
  from detectInThread_history [OF r]
  show "\<exists>st'. detectInThread dk st = Some st'
           \<and> predictions st'
               = (predictions st)
                   [demoIndex st := detection_outputs (network_predict dk (net st)
                      (img_data (buffLetter st ! nat (detect_slot (buffIndex st)))))]
           \<and> demoIndex st' = (demoIndex st + 1) mod demoFrame st
           \<and> avg st' = elementwise_mean (predictions st') (demoTotal st)
           \<and> detection_outputs (net st') = avg st'"
    by blast
qed

theorem avgPredictions_is_mean_witness:
  "averager_ready ex_same ex_net
   \<and> detection_outputs ex_net = [1, 2, 3, 4]
   \<and> rememberNetwork ex_net ex_same = Some ex_same
   \<and> map_option (\<lambda>(s, nw, ds). (avg s, detection_outputs nw))
        (avgPredictions ex_darknet ex_net ex_same)
       = Some ([1, 2, 3, 4], [1, 2, 3, 4])
   \<and> elementwise_mean [[1, 2, 3, 4], [0, 0, 0, 0]] 4 = [1 / 2, 1, 3 / 2, 2]
   \<and> pipeline_ready ex_darknet ex_node
   \<and> predictions ex_node = [[0, 0, 0, 0], [0, 0, 0, 0]] \<and> demoIndex ex_node = 0
   \<and> map_option (\<lambda>s. (predictions s, demoIndex s, avg s, detection_outputs (net s)))
        (detectInThread ex_darknet ex_node)
       = Some ([[1, 2, 3, 4], [0, 0, 0, 0]], 1, [1 / 2, 1, 3 / 2, 2], [1 / 2, 1, 3 / 2, 2])"
proof -
  have w1: "averager_ready ex_same ex_net"
    by (simp add: averager_ready_def ex_same_def ex_node_def ex_net_def sizeNetwork_def
        is_detection_layer_def layers_sized_def)
  have w2: "detection_outputs ex_net = [1, 2, 3, 4]"
    by (simp add: detection_outputs_def ex_net_def is_detection_layer_def)
  have dt: "demoTotal ex_same = 4" and pr: "predictions ex_same = [[1, 2, 3, 4], [1, 2, 3, 4]]"
    and di: "demoIndex ex_same = 0"
    by (simp_all add: ex_same_def ex_node_def)
  from avgPredictions_is_mean [where st = ex_same and nw = ex_net and dk = ex_darknet] w1
  have r: "rememberNetwork ex_net ex_same
           = Some (ex_same\<lparr>predictions := (predictions ex_same)
                      [demoIndex ex_same := detection_outputs ex_net]\<rparr>)"
    and "\<exists>st' nw' dets. avgPredictions ex_darknet ex_net ex_same = Some (st', nw', dets)
            \<and> (\<forall>v. length v = demoTotal ex_same
                     \<and> list_all (\<lambda>row. row = v) (predictions ex_same) \<longrightarrow>
                  avg st' = v \<and> detection_outputs nw' = v)"
    by blast+
  then obtain st' nw' dets where
    a: "avgPredictions ex_darknet ex_net ex_same = Some (st', nw', dets)"
    and v: "\<forall>v. length v = demoTotal ex_same
                     \<and> list_all (\<lambda>row. row = v) (predictions ex_same) \<longrightarrow>
                  avg st' = v \<and> detection_outputs nw' = v"
    by blast
  from v [rule_format, of "[1, 2, 3, 4]"]
  have "avg st' = [1, 2, 3, 4] \<and> detection_outputs nw' = [1, 2, 3, 4]"
    by (simp add: dt pr)
  then have w4: "map_option (\<lambda>(s, nw, ds). (avg s, detection_outputs nw))
        (avgPredictions ex_darknet ex_net ex_same)
       = Some ([1, 2, 3, 4], [1, 2, 3, 4])"
    by (simp add: a)
  have w3: "rememberNetwork ex_net ex_same = Some ex_same"
    using r by (simp add: w2 pr di)
  have w5: "elementwise_mean [[1, 2, 3, 4], [0, 0, 0, 0]] 4 = [1 / 2, 1, 3 / 2, 2]"
    by (simp add: elementwise_mean_def upt_rec)
  have w6: "pipeline_ready ex_darknet ex_node" by (rule ex_pipeline_ready)
  have w7: "predictions ex_node = [[0, 0, 0, 0], [0, 0, 0, 0]]" and w8: "demoIndex ex_node = 0"
    and df: "demoFrame ex_node = 2" and tt: "demoTotal ex_node = 4"
    and nn: "net ex_node = ex_net"
    by (simp_all add: ex_node_def)
  have np: "network_predict ex_darknet = (\<lambda>nw X. nw)" by (simp add: ex_darknet_def)
  from avgPredictions_is_mean [where st = ex_node and dk = ex_darknet] w6
  obtain sd where d: "detectInThread ex_darknet ex_node = Some sd"
    and d1: "predictions sd
               = (predictions ex_node)
                   [demoIndex ex_node := detection_outputs (network_predict ex_darknet
                      (net ex_node)
                      (img_data (buffLetter ex_node ! nat (detect_slot (buffIndex ex_node)))))]"
    and d2: "demoIndex sd = (demoIndex ex_node + 1) mod demoFrame ex_node"
    and d3: "avg sd = elementwise_mean (predictions sd) (demoTotal ex_node)"
    and d4: "detection_outputs (net sd) = avg sd"
    by blast
  from d1 have e1: "predictions sd = [[1, 2, 3, 4], [0, 0, 0, 0]]"
    by (simp add: w7 w8 np nn w2)
  from d2 have e2: "demoIndex sd = 1" by (simp add: w8 df)
  from d3 have e3: "avg sd = [1 / 2, 1, 3 / 2, 2]" by (simp only: e1 tt w5)
  from d4 have e4: "detection_outputs (net sd) = [1 / 2, 1, 3 / 2, 2]" by (simp only: e3)
  have w9: "map_option (\<lambda>s. (predictions s, demoIndex s, avg s, detection_outputs (net s)))
        (detectInThread ex_darknet ex_node)
       = Some ([[1, 2, 3, 4], [0, 0, 0, 0]], 1, [1 / 2, 1, 3 / 2, 2], [1 / 2, 1, 3 / 2, 2])"
    by (simp add: d e1 e2 e3 e4)
  show ?thesis
    by (intro conjI) (rule w1 w2 w3 w4 w5 w6 w7 w8 w9)+
qed

section \<open>The count of a pass\<close>

text \<open>
  Claim C7, as amended.  A pass that starts with its arrays in shape completes and
  leaves them in shape.  A completed pass publishes exactly one count.  The count is
  the number \<open>n\<close> that the publish stage reads in \<^verbatim>\<open>roiBoxes_[0].num\<close> when
  \<open>0 < n \<le> 100\<close>, and 0 otherwise.  \<open>n\<close> is the number of detections that survived the
  filter of the detect stage of this pass when that stage ran before the publish
  stage, and the number that was in \<^verbatim>\<open>roiBoxes_[0].num\<close> when the pass started when
  it did not; every pass leaves the number of its survivors there.  The extraction
  of given boxes followed by the publish stage publishes their number when it is at
  most 100, and 0 when it is more.
\<close>

theorem published_count_capped:
  "(pipeline_ready dk st \<longrightarrow>
      (\<exists>st1. yolo_iteration dk key sched st = Some st1 \<and> pipeline_ready dk st1))
   \<and> (interleaving sched \<and> yolo_iteration dk key sched st = Some st' \<longrightarrow>
        (\<exists>dets n. iteration_detections dk key sched st = Some dets
           \<and> n = (if detect_before_publish sched
                   then int (length (survivors (demoClasses st) dets))
                   else rb_num (roiBoxes st ! 0))
           \<and> objectPublished st' = objectPublished st @ [if 0 < n \<and> n \<le> 100 then n else 0]
           \<and> rb_num (roiBoxes st' ! 0) = int (length (survivors (demoClasses st) dets))))
   \<and> (extract_then_publish st ds = Some (count, msgs) \<longrightarrow>
        count = length (survivors (demoClasses st) ds)
        \<and> msgs = objectPublished st @ [if count \<le> 100 then int count else 0])"
proof (intro conjI impI)
  assume "pipeline_ready dk st"
  then show "\<exists>st1. yolo_iteration dk key sched st = Some st1 \<and> pipeline_ready dk st1"
    by (rule yolo_iteration_ready)
next
  assume a: "interleaving sched \<and> yolo_iteration dk key sched st = Some st'"
  then have il: "interleaving sched" and it: "yolo_iteration dk key sched st = Some st'"
    by simp_all
  from yolo_iteration_count [OF il it] obtain dets where
    d: "iteration_detections dk key sched st = Some dets"
    and p: "objectPublished st' = objectPublished st
              @ [published_count (if detect_before_publish sched
                                  then int (length (survivors (demoClasses st) dets))
                                  else rb_num (roiBoxes st ! 0))]"
    and n: "rb_num (roiBoxes st' ! 0) = int (length (survivors (demoClasses st) dets))"
    by blast
  define m where "m = (if detect_before_publish sched
                       then int (length (survivors (demoClasses st) dets))
                       else rb_num (roiBoxes st ! 0))"
  from p have "objectPublished st' = objectPublished st @ [if 0 < m \<and> m \<le> 100 then m else 0]"
    by (simp add: published_count_def m_def)
  with d n m_def
  show "\<exists>dets n. iteration_detections dk key sched st = Some dets
           \<and> n = (if detect_before_publish sched
                   then int (length (survivors (demoClasses st) dets))
                   else rb_num (roiBoxes st ! 0))
           \<and> objectPublished st' = objectPublished st @ [if 0 < n \<and> n \<le> 100 then n else 0]
           \<and> rb_num (roiBoxes st' ! 0) = int (length (survivors (demoClasses st) dets))"
    by blast
next
  assume a: "extract_then_publish st ds = Some (count, msgs)"
  then obtain roi stp where eb: "extract_boxes st ds = Some (roi, count)"
    and p: "publishInThread (st\<lparr>roiBoxes := roi\<rparr>) = Some stp"
    and m: "msgs = objectPublished stp"
    by (auto simp: extract_then_publish_def split: option.splits)
  from extract_boxes_Some [OF eb]
  show "count = length (survivors (demoClasses st) ds)" by simp
  from extract_boxes_Some [OF eb] have num: "rb_num (roi ! 0) = int count" by simp
  show "msgs = objectPublished st @ [if count \<le> 100 then int count else 0]"
    using publishInThread_count [OF p] by (simp add: m num)
qed

theorem published_count_capped_witness:
  "pipeline_ready ex_darknet ex_node
   \<and> interleaving ex_in_order \<and> detect_before_publish ex_in_order
   \<and> yolo_iteration ex_darknet (- 1) ex_in_order ex_node = Some ex_node_after
   \<and> iteration_detections ex_darknet (- 1) ex_in_order ex_node
       = Some [ex_det_thin, ex_det_over, ex_det_beyond]
   \<and> survivors (demoClasses ex_node) [ex_det_thin, ex_det_over, ex_det_beyond]
       = [(ex_det_over, 0)]
   \<and> objectPublished ex_node = []
   \<and> objectPublished ex_node_after = [1]
   \<and> interleaving ex_publish_first \<and> \<not> detect_before_publish ex_publish_first
   \<and> rb_num (roiBoxes ex_node ! 0) = 0
   \<and> iteration_detections ex_darknet (- 1) ex_publish_first ex_node
       = Some [ex_det_thin, ex_det_over, ex_det_beyond]
   \<and> map_option objectPublished (yolo_iteration ex_darknet (- 1) ex_publish_first ex_node)
       = Some [0]
   \<and> map_option (\<lambda>s. rb_num (roiBoxes s ! 0))
         (yolo_iteration ex_darknet (- 1) ex_publish_first ex_node) = Some 1
   \<and> extract_then_publish ex_node [ex_det_thin, ex_det_over, ex_det_beyond] = Some (1, [1])"
proof -
  let ?dets = "[ex_det_thin, ex_det_over, ex_det_beyond]"
  have eb: "extract_boxes ex_node ?dets
       = Some ([ex_record, zero_RosBox, zero_RosBox, zero_RosBox], 1)"
    by (rule ex_extract) (simp_all add: ex_node_def)
  have "\<exists>stp. publishInThread
      (ex_node\<lparr>roiBoxes := [ex_record, zero_RosBox, zero_RosBox, zero_RosBox]\<rparr>) = Some stp"
    by (rule publishInThread_total) (simp_all add: ex_node_def ex_record_def)
  then obtain stp where p: "publishInThread
      (ex_node\<lparr>roiBoxes := [ex_record, zero_RosBox, zero_RosBox, zero_RosBox]\<rparr>) = Some stp" ..
  from publishInThread_count [OF p] have "objectPublished stp = [1]"
    by (simp add: ex_node_def ex_record_def)
  then have w_etp: "extract_then_publish ex_node ?dets = Some (1, [1])"
    by (simp add: extract_then_publish_def eb p)
  have w_ready: "pipeline_ready ex_darknet ex_node" by (rule ex_pipeline_ready)
  have w_il: "interleaving ex_in_order" "interleaving ex_publish_first"
    by (rule ex_interleavings)+
  have w_dbp: "detect_before_publish ex_in_order" "\<not> detect_before_publish ex_publish_first"
    by (simp_all add: detect_before_publish_def ex_in_order_def ex_publish_first_def)
  have w_it: "yolo_iteration ex_darknet (- 1) ex_in_order ex_node = Some ex_node_after"
    by (rule ex_iteration_in_order)
  have w_nc: "demoClasses ex_node = 2" by (simp add: ex_node_def)
  have w_sv: "survivors (demoClasses ex_node) ?dets = [(ex_det_over, 0)]"
    by (simp add: w_nc ex_survivors)
  have w_op: "objectPublished ex_node = []" by (simp add: ex_node_def)
  have w_z: "rb_num (roiBoxes ex_node ! 0) = 0" by (simp add: ex_node_def zero_RosBox_def)
  from published_count_capped [of ex_darknet ex_node "- 1" ex_in_order ex_node_after ?dets 1 "[1]"]
    w_il(1) w_it
  obtain dets n where
    a1: "iteration_detections ex_darknet (- 1) ex_in_order ex_node = Some dets"
    and a2: "n = (if detect_before_publish ex_in_order
                  then int (length (survivors (demoClasses ex_node) dets))
                  else rb_num (roiBoxes ex_node ! 0))"
    and a3: "objectPublished ex_node_after
               = objectPublished ex_node @ [if 0 < n \<and> n \<le> 100 then n else 0]"
    by blast
  have a4: "dets = ?dets" by (rule ex_iteration_detections [OF a1])
  have w_id: "iteration_detections ex_darknet (- 1) ex_in_order ex_node = Some ?dets"
    using a1 a4 by simp
  have "n = 1" using a2 a4 w_dbp(1) w_sv by simp
  with a3 w_op have w_after: "objectPublished ex_node_after = [1]" by simp
  from published_count_capped [of ex_darknet ex_node "- 1" ex_publish_first] w_ready
  obtain st1 where b0: "yolo_iteration ex_darknet (- 1) ex_publish_first ex_node = Some st1"
    by blast
  from published_count_capped [of ex_darknet ex_node "- 1" ex_publish_first st1] w_il(2) b0
  obtain dets' n' where
    b1: "iteration_detections ex_darknet (- 1) ex_publish_first ex_node = Some dets'"
    and b2: "n' = (if detect_before_publish ex_publish_first
                   then int (length (survivors (demoClasses ex_node) dets'))
                   else rb_num (roiBoxes ex_node ! 0))"
    and b3: "objectPublished st1
               = objectPublished ex_node @ [if 0 < n' \<and> n' \<le> 100 then n' else 0]"
    and b5: "rb_num (roiBoxes st1 ! 0) = int (length (survivors (demoClasses ex_node) dets'))"
    by blast
  have b4: "dets' = ?dets" by (rule ex_iteration_detections [OF b1])
  have w_id2: "iteration_detections ex_darknet (- 1) ex_publish_first ex_node = Some ?dets"
    using b1 b4 by simp
  have "n' = 0" using b2 w_dbp(2) w_z by simp
  with b3 w_op have "objectPublished st1 = [0]" by simp
  with b0 have w_pf: "map_option objectPublished
      (yolo_iteration ex_darknet (- 1) ex_publish_first ex_node) = Some [0]"
    by simp
  have "rb_num (roiBoxes st1 ! 0) = 1" using b5 b4 w_sv by simp
  with b0 have w_left: "map_option (\<lambda>s. rb_num (roiBoxes s ! 0))
      (yolo_iteration ex_darknet (- 1) ex_publish_first ex_node) = Some 1"
    by simp
  show ?thesis
    by (intro conjI) (rule w_ready w_il w_dbp w_it w_id w_sv w_op w_after w_z w_id2 w_pf
        w_left w_etp)+
qed

section \<open>The result of a request\<close>

lemma publishInThread_completes:
  assumes "publishInThread st = Some st'"
  shows "if isCheckingForObjects st
         then map result_id (actionResults st') = map result_id (actionResults st) @ [buffId st ! 0]
              \<and> \<not> isCheckingForObjects st'
         else actionResults st' = actionResults st \<and> \<not> isCheckingForObjects st'"
proof -
  from assms obtain st1 where e: "st' = clear_results (complete_request st1)"
    and s: "publish_detections (rb_num (roiBoxes st ! 0)) st = Some st1
            \<or> st1 = st\<lparr>objectPublished := objectPublished st @ [int8_cast 0]\<rparr>"
    by (auto simp: publishInThread_def Let_def split: if_splits option.splits)
  from s have k: "actionResults st1 = actionResults st \<and> buffId st1 = buffId st
      \<and> ros_ok st1 = ros_ok st
      \<and> checkForObjectsActionServer st1 = checkForObjectsActionServer st"
    by (auto simp: publish_detections_def Let_def split: if_splits prod.splits)
  then have c: "isCheckingForObjects st1 = isCheckingForObjects st"
    by (simp add: isCheckingForObjects_def)
  show ?thesis
    using k c
    by (auto simp: e clear_results_def complete_request_def isCheckingForObjects_def
        setSucceeded_def)
qed

lemma fetchInThread_buffId:
  assumes "fetchInThread dk st = Some st'"
  shows "buffId st' = (buffId st)[nat (buffIndex st) := actionId st]"
    "0 \<le> buffIndex st" "length (buffId st) = 3"
  using assms
  by (auto simp: fetchInThread_def fetch_slot_def getIplImageWithHeader_def Let_def
      split: if_splits)

lemma run_stage_buffId_0:
  assumes "run_stage dk key s st = Some st'"
  shows "buffId st' ! 0
       = (if s = Fetch \<and> buffIndex st = 0 then actionId st else buffId st ! 0)"
proof (cases "s = Fetch")
  case True
  with assms have f: "fetchInThread dk st = Some st'" by (simp add: run_stage_def)
  note b = fetchInThread_buffId [OF f]
  show ?thesis
  proof (cases "buffIndex st = 0")
    case True
    then show ?thesis using b \<open>s = Fetch\<close> by simp
  next
    case False
    with b(2) have "nat (buffIndex st) \<noteq> 0" by simp
    then show ?thesis using b(1) False \<open>s = Fetch\<close> by simp
  qed
next
  case False
  then show ?thesis using run_stage_keeps_buffId [OF assms] by simp
qed

lemma run_stages_buffId_0:
  assumes "run_stages dk key ss st = Some st'"
  shows "buffId st' ! 0
       = (if Fetch \<in> set ss \<and> buffIndex st = 0 then actionId st else buffId st ! 0)"
  using assms
proof (induction ss arbitrary: st)
  case Nil
  then show ?case by simp
next
  case (Cons s ss)
  from Cons.prems obtain st1 where a: "run_stage dk key s st = Some st1"
    and b: "run_stages dk key ss st1 = Some st'"
    by (auto split: option.splits)
  from run_stage_keeps [OF a] have k: "buffIndex st1 = buffIndex st" "actionId st1 = actionId st"
    by simp_all
  from run_stage_buffId_0 [OF a] Cons.IH [OF b] show ?case by (auto simp: k)
qed

lemma run_stages_buffId:
  assumes "run_stages dk key sched st = Some st'" "interleaving sched"
  shows "buffId st' = (buffId st)[nat (buffIndex st) := actionId st]"
proof -
  from assms(2) obtain a b where sf: "sched = a @ Fetch # b"
    and fa: "Fetch \<notin> set a" and fb: "Fetch \<notin> set b"
    by (rule interleaving_split)
  from assms(1) obtain s1 s2 where
    r1: "run_stages dk key a st = Some s1"
    and rf: "fetchInThread dk s1 = Some s2"
    and r2: "run_stages dk key b s2 = Some st'"
    by (auto simp: sf run_stages_append run_stage_def split: option.splits)
  from run_stages_keeps [OF r1] run_stages_keeps_buffId [OF r1 fa]
  have "buffIndex s1 = buffIndex st" "actionId s1 = actionId st" "buffId s1 = buffId st"
    by simp_all
  with fetchInThread_buffId(1) [OF rf] run_stages_keeps_buffId [OF r2 fb]
  show ?thesis by simp
qed

lemma yolo_iteration_request:
  assumes il: "interleaving sched" and it: "yolo_iteration dk key sched st = Some st'"
  shows "buffId st' = (buffId st)[nat (advance_buffIndex (buffIndex st)) := actionId st]"
    and "if isCheckingForObjects st
         then map result_id (actionResults st')
                = map result_id (actionResults st)
                  @ [if fetch_before_publish sched \<and> advance_buffIndex (buffIndex st) = 0
                     then actionId st else buffId st ! 0]
              \<and> \<not> isCheckingForObjects st'
         else actionResults st' = actionResults st \<and> \<not> isCheckingForObjects st'"
proof -
  let ?st0 = "st\<lparr>buffIndex := advance_buffIndex (buffIndex st),
                fetch_thread_joinable := True, detect_thread_joinable := True\<rparr>"
  from it obtain st4 where
    run: "run_stages dk key sched ?st0 = Some st4"
    and e: "st' = (if \<not> isNodeRunning st4
            then st4\<lparr>fetch_thread_joinable := False, detect_thread_joinable := False,
                     demoDone := True\<rparr>
            else st4\<lparr>fetch_thread_joinable := False, detect_thread_joinable := False\<rparr>)"
    by (rule yolo_iteration_Some)
  have e': "buffId st' = buffId st4" "actionResults st' = actionResults st4"
    "isCheckingForObjects st' = isCheckingForObjects st4"
    using e by (simp_all add: isCheckingForObjects_def)
  from run_stages_buffId [OF run il] e'(1)
  show "buffId st' = (buffId st)[nat (advance_buffIndex (buffIndex st)) := actionId st]"
    by simp
  from il obtain pre post where sp: "sched = pre @ Publish # post"
    and pa: "Publish \<notin> set pre" and pb: "Publish \<notin> set post"
    by (rule interleaving_split)
  from run obtain s1 s2 where
    r1: "run_stages dk key pre ?st0 = Some s1"
    and rp: "publishInThread s1 = Some s2"
    and r2: "run_stages dk key post s2 = Some st4"
    by (auto simp: sp run_stages_append run_stage_def split: option.splits)
  have fbp: "fetch_before_publish sched \<longleftrightarrow> Fetch \<in> set pre"
    by (simp add: fetch_before_publish_def sp takeWhile_split [OF pa])
  from run_stages_keeps [OF r1] run_stages_keeps_published [OF r1 pa]
  have c1: "isCheckingForObjects s1 = isCheckingForObjects st"
    and a1: "actionResults s1 = actionResults st"
    by (simp_all add: isCheckingForObjects_def)
  from run_stages_buffId_0 [OF r1]
  have b1: "buffId s1 ! 0
      = (if fetch_before_publish sched \<and> advance_buffIndex (buffIndex st) = 0
         then actionId st else buffId st ! 0)"
    by (simp add: fbp)
  from run_stages_keeps [OF r2] run_stages_keeps_published [OF r2 pb]
  have c4: "isCheckingForObjects st4 = isCheckingForObjects s2"
    and a4: "actionResults st4 = actionResults s2"
    by (simp_all add: isCheckingForObjects_def)
  from publishInThread_completes [OF rp]
  show "if isCheckingForObjects st
         then map result_id (actionResults st')
                = map result_id (actionResults st)
                  @ [if fetch_before_publish sched \<and> advance_buffIndex (buffIndex st) = 0
                     then actionId st else buffId st ! 0]
              \<and> \<not> isCheckingForObjects st'
         else actionResults st' = actionResults st \<and> \<not> isCheckingForObjects st'"
    by (simp only: e' c4 a4 c1 a1 b1)
qed

lemma pipeline_ready_staged:
  assumes r: "pipeline_ready dk st"
    and d: "depth_readable (st\<lparr>imageHeader := hdr, camImageCopy := im, camDmapCopy := dm,
              imageStatus := b, frameWidth := w, frameHeight := h, sem_new_image := n,
              checkForObjectsActionServer := srv, actionId := a\<rparr>)"
  shows "pipeline_ready dk (st\<lparr>imageHeader := hdr, camImageCopy := im, camDmapCopy := dm,
              imageStatus := b, frameWidth := w, frameHeight := h, sem_new_image := n,
              checkForObjectsActionServer := srv, actionId := a\<rparr>)"
proof -
  let ?st = "st\<lparr>imageHeader := hdr, camImageCopy := im, camDmapCopy := dm,
              imageStatus := b, frameWidth := w, frameHeight := h, sem_new_image := n,
              checkForObjectsActionServer := srv, actionId := a\<rparr>"
  from r have "boxes_fit dk st" by (simp add: pipeline_ready_def)
  then have bf: "boxes_fit dk ?st" by (simp add: boxes_fit_cong)
  from r have "averager_ready st (net st)" by (simp add: pipeline_ready_def)
  then have av: "averager_ready ?st (net ?st)" by (auto simp: averager_ready_def)
  from r bf av d show ?thesis by (simp add: pipeline_ready_def)
qed

lemma ex_requested_eq:
  "ex_requested
   = ex_node\<lparr>imageHeader := msg_header ex_msg,
             camImageCopy := \<lparr>rows = 2, cols = 3, pixel = (\<lambda>r c. (1, 1, 1))\<rparr>,
             camDmapCopy := ex_dmap, imageStatus := True, frameWidth := 3, frameHeight := 2,
             sem_new_image := 1,
             checkForObjectsActionServer := \<lparr>active = True, preempt_request = False\<rparr>,
             actionId := 42\<rparr>"
  by (simp add: ex_requested_def checkForObjectsActionGoalCB_def zedCameraCallback_def
      cvb_accepts_def ex_goal_def acceptNewGoal_def Let_def ex_node_def)

lemma ex_requested_ready: "pipeline_ready ex_darknet ex_requested"
  unfolding ex_requested_eq
  by (rule pipeline_ready_staged [OF ex_pipeline_ready])
     (simp add: depth_readable_def ex_dmap_def)

text \<open>
  Claim C2.  What the code does with a pending request.  In every completed pass the
  fetch stage stores the id of the staged frame in slot \<open>i\<close> of \<^verbatim>\<open>buffId_\<close>, where
  \<open>i\<close> is the ring index of the pass.  When a request is pending, the publish stage
  of the pass hands one result to the action server, after which no request is
  pending; when none is pending, it hands over none.  The result carries what the
  publish stage reads in \<^verbatim>\<open>buffId_[0]\<close>: the id of the staged frame if \<open>i\<close> is 0
  and the fetch stage ran before the publish stage, and what slot 0 held when the
  pass started otherwise.  Slot \<open>(i + 1) mod 3\<close> is not read.
\<close>

theorem request_result_carries_slot_zero:
  "interleaving sched \<and> yolo_iteration dk key sched st = Some st' \<longrightarrow>
     buffId st' = (buffId st)[nat (advance_buffIndex (buffIndex st)) := actionId st]
     \<and> (if isCheckingForObjects st
        then map result_id (actionResults st')
               = map result_id (actionResults st)
                 @ [if fetch_before_publish sched \<and> advance_buffIndex (buffIndex st) = 0
                    then actionId st else buffId st ! 0]
             \<and> \<not> isCheckingForObjects st'
        else actionResults st' = actionResults st \<and> \<not> isCheckingForObjects st')"
proof (intro impI)
  assume "interleaving sched \<and> yolo_iteration dk key sched st = Some st'"
  then have il: "interleaving sched" and it: "yolo_iteration dk key sched st = Some st'"
    by simp_all
  from yolo_iteration_request [OF il it]
  show "buffId st' = (buffId st)[nat (advance_buffIndex (buffIndex st)) := actionId st]
     \<and> (if isCheckingForObjects st
        then map result_id (actionResults st')
               = map result_id (actionResults st)
                 @ [if fetch_before_publish sched \<and> advance_buffIndex (buffIndex st) = 0
                    then actionId st else buffId st ! 0]
             \<and> \<not> isCheckingForObjects st'
        else actionResults st' = actionResults st \<and> \<not> isCheckingForObjects st')"
    by (rule conjI)
qed

text \<open>
  The example node takes a streaming frame and then a request with the id 42; the
  next pass has the ring index 1.  The fetch stage stores 42 in slot 1, slots 0 and 2
  hold the id 0, and the one result of the request carries the id 0.
\<close>

theorem request_result_carries_slot_zero_witness:
  "interleaving ex_in_order
   \<and> isCheckingForObjects ex_requested
   \<and> actionId ex_requested = 42
   \<and> advance_buffIndex (buffIndex ex_requested) = 1
   \<and> display_slot (advance_buffIndex (buffIndex ex_requested)) = 2
   \<and> buffId ex_requested = [0, 0, 0]
   \<and> actionResults ex_requested = []
   \<and> map_option buffId (yolo_iteration ex_darknet (- 1) ex_in_order ex_requested)
       = Some [0, 42, 0]
   \<and> map_option (\<lambda>s. map result_id (actionResults s))
         (yolo_iteration ex_darknet (- 1) ex_in_order ex_requested) = Some [0]
   \<and> map_option isCheckingForObjects (yolo_iteration ex_darknet (- 1) ex_in_order ex_requested)
       = Some False"
proof -
  have w_il: "interleaving ex_in_order" by (rule ex_interleavings)
  have w_ck: "isCheckingForObjects ex_requested"
    by (simp add: ex_requested_eq isCheckingForObjects_def ex_node_def)
  have w_id: "actionId ex_requested = 42" by (simp add: ex_requested_eq)
  have w_ix: "advance_buffIndex (buffIndex ex_requested) = 1"
    by (simp add: ex_requested_eq ex_node_def advance_buffIndex_def signed_modulo_int_def)
  have w_ds: "display_slot (advance_buffIndex (buffIndex ex_requested)) = 2"
    by (simp add: w_ix display_slot_def signed_modulo_int_def)
  have w_bi: "buffId ex_requested = [0, 0, 0]" by (simp add: ex_requested_eq ex_node_def)
  have w_ar: "actionResults ex_requested = []" by (simp add: ex_requested_eq ex_node_def)
  from yolo_iteration_ready [OF ex_requested_ready, of "- 1" ex_in_order]
  obtain st' where it: "yolo_iteration ex_darknet (- 1) ex_in_order ex_requested = Some st'"
    by blast
  from request_result_carries_slot_zero [of ex_in_order ex_darknet "- 1" ex_requested st']
    w_il it w_ck
  have b: "buffId st' = (buffId ex_requested)
               [nat (advance_buffIndex (buffIndex ex_requested)) := actionId ex_requested]"
    and r: "map result_id (actionResults st')
               = map result_id (actionResults ex_requested)
                 @ [if fetch_before_publish ex_in_order
                       \<and> advance_buffIndex (buffIndex ex_requested) = 0
                    then actionId ex_requested else buffId ex_requested ! 0]"
    and c: "\<not> isCheckingForObjects st'"
    by simp_all
  from b have "buffId st' = [0, 42, 0]" by (simp add: w_bi w_ix w_id)
  with it have w1: "map_option buffId (yolo_iteration ex_darknet (- 1) ex_in_order ex_requested)
       = Some [0, 42, 0]"
    by simp
  from r have "map result_id (actionResults st') = [0]" by (simp add: w_ar w_ix w_bi)
  with it have w2: "map_option (\<lambda>s. map result_id (actionResults s))
         (yolo_iteration ex_darknet (- 1) ex_in_order ex_requested) = Some [0]"
    by simp
  from c it have w3: "map_option isCheckingForObjects
         (yolo_iteration ex_darknet (- 1) ex_in_order ex_requested) = Some False"
    by simp
  show ?thesis
    by (intro conjI) (rule w_il w_ck w_id w_ix w_ds w_bi w_ar w1 w2 w3)+
qed

section \<open>The end of the loop\<close>

lemma yolo_loop_done:
  assumes "demoDone st"
  shows "yolo_loop dk passes st = Exited st"
  using assms by (induction dk passes st rule: yolo_loop.induct) simp_all

lemma yolo_loop_blocked:
  assumes "\<not> demoDone st" "sem_new_image st = 0"
  shows "yolo_loop dk passes st = Blocked st"
  using assms by (induction dk passes st rule: yolo_loop.induct) simp_all

lemma yolo_iteration_stopped:
  assumes r: "pipeline_ready dk st" and f: "\<not> isNodeRunning st"
  shows "\<exists>st'. yolo_iteration dk key sched st = Some st' \<and> demoDone st'
           \<and> \<not> fetch_thread_joinable st' \<and> \<not> detect_thread_joinable st'
           \<and> sem_new_image st' = sem_new_image st"
proof -
  from yolo_iteration_ready [OF r] obtain st' where
    it: "yolo_iteration dk key sched st = Some st'" by blast
  from it obtain st4 where
    run: "run_stages dk key sched (st\<lparr>buffIndex := advance_buffIndex (buffIndex st),
                                      fetch_thread_joinable := True,
                                      detect_thread_joinable := True\<rparr>) = Some st4"
    and e: "st' = (if \<not> isNodeRunning st4
            then st4\<lparr>fetch_thread_joinable := False, detect_thread_joinable := False,
                     demoDone := True\<rparr>
            else st4\<lparr>fetch_thread_joinable := False, detect_thread_joinable := False\<rparr>)"
    by (rule yolo_iteration_Some)
  from run_stages_keeps [OF run] f
  have "\<not> isNodeRunning st4" "sem_new_image st4 = sem_new_image st" by simp_all
  with e have "demoDone st'" "\<not> fetch_thread_joinable st'" "\<not> detect_thread_joinable st'"
    "sem_new_image st' = sem_new_image st"
    by simp_all
  with it show ?thesis by blast
qed

text \<open>
  Claim C8.  What the code does once the running flag is cleared.  When the flag is
  cleared while a pass is under way, the pass completes, the two threads are joined,
  and the loop exits.  When the destructor clears the flag while the loop is at its
  head and a frame has been signalled, the loop makes one pass, joins the two
  threads and exits, so that the join of the destructor returns.  When no frame has
  been signalled, the loop stays in \<^verbatim>\<open>sem_wait\<close>: without another frame the flag is
  never read and the join of the destructor does not return.
\<close>

theorem loop_exit_waits_for_frame:
  "(pipeline_ready dk st \<longrightarrow>
      (\<exists>st'. yolo_iteration dk key sched (st\<lparr>isNodeRunning := False\<rparr>) = Some st'
         \<and> demoDone st' \<and> \<not> fetch_thread_joinable st' \<and> \<not> detect_thread_joinable st'
         \<and> yolo_loop dk passes st' = Exited st'))
   \<and> (pipeline_ready dk st \<and> \<not> demoDone st \<and> 0 < sem_new_image st \<longrightarrow>
        (\<exists>st'. destructor_join dk ((key, sched) # passes) st = Exited st'
           \<and> demoDone st' \<and> \<not> fetch_thread_joinable st' \<and> \<not> detect_thread_joinable st'
           \<and> sem_new_image st' = sem_new_image st - 1))
   \<and> (\<not> demoDone st \<and> sem_new_image st = 0 \<longrightarrow>
        destructor_join dk passes st = Blocked (st\<lparr>isNodeRunning := False\<rparr>))"
proof (intro conjI impI)
  assume r: "pipeline_ready dk st"
  have "pipeline_ready dk (st\<lparr>isNodeRunning := False\<rparr>)"
    by (rule pipeline_ready_flags(4) [OF r])
  from yolo_iteration_stopped [OF this, of key sched] yolo_loop_done [of _ dk passes]
  show "\<exists>st'. yolo_iteration dk key sched (st\<lparr>isNodeRunning := False\<rparr>) = Some st'
         \<and> demoDone st' \<and> \<not> fetch_thread_joinable st' \<and> \<not> detect_thread_joinable st'
         \<and> yolo_loop dk passes st' = Exited st'"
    by auto
next
  assume a: "pipeline_ready dk st \<and> \<not> demoDone st \<and> 0 < sem_new_image st"
  then have r: "pipeline_ready dk st" and d: "\<not> demoDone st" and s: "0 < sem_new_image st"
    by simp_all
  let ?st = "st\<lparr>isNodeRunning := False, sem_new_image := sem_new_image st - 1\<rparr>"
  have "pipeline_ready dk (st\<lparr>isNodeRunning := False\<rparr>)"
    by (rule pipeline_ready_flags(4) [OF r])
  from pipeline_ready_flags(3) [OF this, of "sem_new_image st - 1"]
  have r': "pipeline_ready dk ?st" by simp
  from yolo_iteration_stopped [OF r', of key sched] obtain st' where
    it: "yolo_iteration dk key sched ?st = Some st'" and dd: "demoDone st'"
    and j: "\<not> fetch_thread_joinable st'" "\<not> detect_thread_joinable st'"
    and n: "sem_new_image st' = sem_new_image st - 1"
    by auto
  have "destructor_join dk ((key, sched) # passes) st = Exited st'"
    using d s it yolo_loop_done [OF dd, of dk passes] by (simp add: destructor_join_def)
  with dd j n
  show "\<exists>st'. destructor_join dk ((key, sched) # passes) st = Exited st'
           \<and> demoDone st' \<and> \<not> fetch_thread_joinable st' \<and> \<not> detect_thread_joinable st'
           \<and> sem_new_image st' = sem_new_image st - 1"
    by blast
next
  assume "\<not> demoDone st \<and> sem_new_image st = 0"
  then show "destructor_join dk passes st = Blocked (st\<lparr>isNodeRunning := False\<rparr>)"
    by (simp add: destructor_join_def yolo_loop_blocked)
qed

text \<open>
  On the example node no frame has been signalled: the join of the destructor does not
  return, whatever passes are offered.  After one streaming frame it returns after
  one pass.
\<close>

theorem loop_exit_waits_for_frame_witness:
  "pipeline_ready ex_darknet ex_node \<and> \<not> demoDone ex_node \<and> sem_new_image ex_node = 0
   \<and> destructor_join ex_darknet [(- 1, ex_in_order), (- 1, ex_in_order)] ex_node
       = Blocked (ex_node\<lparr>isNodeRunning := False\<rparr>)
   \<and> pipeline_ready ex_darknet (zedCameraCallback cvb_accepts ex_msg ex_msg ex_node)
   \<and> \<not> demoDone (zedCameraCallback cvb_accepts ex_msg ex_msg ex_node)
   \<and> sem_new_image (zedCameraCallback cvb_accepts ex_msg ex_msg ex_node) = 1
   \<and> (\<exists>st'. destructor_join ex_darknet [(- 1, ex_in_order), (- 1, ex_in_order)]
              (zedCameraCallback cvb_accepts ex_msg ex_msg ex_node) = Exited st'
          \<and> demoDone st' \<and> \<not> fetch_thread_joinable st' \<and> \<not> detect_thread_joinable st'
          \<and> sem_new_image st' = 0)
   \<and> (\<exists>st'. yolo_iteration ex_darknet (- 1) ex_publish_first (ex_node\<lparr>isNodeRunning := False\<rparr>)
              = Some st'
          \<and> demoDone st' \<and> \<not> fetch_thread_joinable st' \<and> \<not> detect_thread_joinable st'
          \<and> yolo_loop ex_darknet [(- 1, ex_in_order)] st' = Exited st')"
proof -
  let ?fr = "zedCameraCallback cvb_accepts ex_msg ex_msg ex_node"
  have fr: "?fr = ex_node\<lparr>imageHeader := msg_header ex_msg,
             camImageCopy := \<lparr>rows = 2, cols = 3, pixel = (\<lambda>r c. (1, 1, 1))\<rparr>,
             camDmapCopy := ex_dmap, imageStatus := True, frameWidth := 3, frameHeight := 2,
             sem_new_image := 1,
             checkForObjectsActionServer := checkForObjectsActionServer ex_node,
             actionId := actionId ex_node\<rparr>"
    by (simp add: zedCameraCallback_def cvb_accepts_def ex_node_def)
  have w1: "pipeline_ready ex_darknet ex_node" by (rule ex_pipeline_ready)
  have w2: "\<not> demoDone ex_node" and w3: "sem_new_image ex_node = 0"
    by (simp_all add: ex_node_def)
  have w5: "pipeline_ready ex_darknet ?fr"
    unfolding fr
    by (rule pipeline_ready_staged [OF ex_pipeline_ready])
       (simp add: depth_readable_def ex_dmap_def)
  have w6: "\<not> demoDone ?fr" and w7: "sem_new_image ?fr = 1"
    by (simp_all add: fr) (simp add: ex_node_def)
  from loop_exit_waits_for_frame
    [of ex_darknet ex_node "- 1" ex_in_order "[(- 1, ex_in_order), (- 1, ex_in_order)]"] w2 w3
  have w4: "destructor_join ex_darknet [(- 1, ex_in_order), (- 1, ex_in_order)] ex_node
       = Blocked (ex_node\<lparr>isNodeRunning := False\<rparr>)"
    by simp
  from loop_exit_waits_for_frame
    [of ex_darknet ?fr "- 1" ex_in_order "[(- 1, ex_in_order)]"] w5 w6 w7
  have w8: "\<exists>st'. destructor_join ex_darknet [(- 1, ex_in_order), (- 1, ex_in_order)] ?fr
              = Exited st'
          \<and> demoDone st' \<and> \<not> fetch_thread_joinable st' \<and> \<not> detect_thread_joinable st'
          \<and> sem_new_image st' = 0"
    by simp
  from loop_exit_waits_for_frame
    [of ex_darknet ex_node "- 1" ex_publish_first "[(- 1, ex_in_order)]"] w1
  have w9: "\<exists>st'. yolo_iteration ex_darknet (- 1) ex_publish_first
                (ex_node\<lparr>isNodeRunning := False\<rparr>) = Some st'
          \<and> demoDone st' \<and> \<not> fetch_thread_joinable st' \<and> \<not> detect_thread_joinable st'
          \<and> yolo_loop ex_darknet [(- 1, ex_in_order)] st' = Exited st'"
    by simp
  show ?thesis
    by (intro conjI) (rule w1 w2 w3 w4 w5 w6 w7 w8 w9)+
qed

end
